theory Spec2Isabelle
  imports Main "HOL-Library.Char_ord" "HOL-Library.Monad_Syntax"
begin

section \<open>Data model\<close>

text \<open>
  The \<^verbatim>\<open>User\<close> entity (entities/user.entity.ts). A value of this record is a JavaScript
  object of class \<^verbatim>\<open>User\<close>: the \<^verbatim>\<open>password\<close> property may be missing from the
  object (it is declared \<^verbatim>\<open>select: false\<close>, and the service strips it before returning),
  so the field is an option, \<open>None\<close> meaning that the object has no such property.
  A stored row is a value of the same record, holding what the columns hold.

  \<^verbatim>\<open>dateOfBirth\<close> holds \<open>Date s\<close> for the object \<^verbatim>\<open>new Date(s)\<close>, which is what create and
  update put there, and \<open>DateString s\<close> for a string: the text \<^verbatim>\<open>YYYY-MM-DD\<close> that the
  ORM hydrates from the \<^verbatim>\<open>date\<close> column (also the form in which a row holds the column),
  or the raw string that \<^verbatim>\<open>Object.assign\<close> copies from an update body before the
  conversion. The two are never equal: one is an object, the other a string.

  A string is a sequence of characters with a code below 256, one \<open>char\<close> each, so that
  \<open>length\<close> counts characters, as the widths of the columns do. Identifiers are integers
  (\<^verbatim>\<open>ParseIntPipe\<close> lets negative and large ones through); timestamps are natural numbers.
\<close>

datatype date_value = Date string | DateString string

record user =
  u_id :: int
  firstName :: string
  lastName :: string
  email :: string
  password :: "string option"
  roles :: "string list"
  dateOfBirth :: "date_value option"
  phoneNumber :: "string option"
  isActive :: bool
  createdAt :: nat
  updatedAt :: nat

text \<open>\<^verbatim>\<open>CreateUserDto\<close> (dto/create-user.dto.ts); an optional property is an option.\<close>

record createUserDto =
  c_firstName :: string
  c_lastName :: string
  c_email :: string
  c_password :: string
  c_roles :: "string list option"
  c_dateOfBirth :: "string option"
  c_phoneNumber :: "string option"

text \<open>
  Modelled from the spec: the declaration of \<^verbatim>\<open>UpdateUserDto\<close> (dto/update-user.dto.ts)
  is not among the sources. The specification gives its content as "any subset of the
  mutable fields (excludes id, createdAt)": every property of the create body, each
  optional, and \<^verbatim>\<open>isActive\<close>. \<open>None\<close> means that the property is not present in the body.
\<close>

record updateUserDto =
  p_firstName :: "string option"
  p_lastName :: "string option"
  p_email :: "string option"
  p_password :: "string option"
  p_roles :: "string list option"
  p_dateOfBirth :: "string option"
  p_phoneNumber :: "string option"
  p_isActive :: "bool option"

text \<open>
  The exceptions that leave the service. It throws three itself: \<^verbatim>\<open>ConflictException\<close> is
  the specification's DuplicateEmail, \<^verbatim>\<open>BadRequestException\<close> its WeakPassword,
  \<^verbatim>\<open>NotFoundException\<close> its NotFound. \<^verbatim>\<open>QueryFailedError\<close> is what the ORM throws when the
  database refuses a statement; the service catches nothing, so it reaches the caller.
\<close>

datatype error =
  ConflictException | BadRequestException | NotFoundException | QueryFailedError

section \<open>The persistence collaborator\<close>

text \<open>
  \<^verbatim>\<open>Repository<User>\<close> is the ORM's class, not code of this repository. It is modelled as
  the specification describes the collaborator (insert returning the identifier, find by
  field, update by id, delete by id returning the affected count), with the constraints
  that the entity declares for the table: a table of rows in insertion order and the next
  value of the identifier sequence.
\<close>

record store =
  rows :: "user list"
  nextId :: int

definition initial_store :: store where
  "initial_store = \<lparr>rows = [], nextId = 1\<rparr>"

subsection \<open>What the columns accept\<close>

text \<open>
  The identifier column is a 32-bit integer: a statement that binds a value outside the
  range to it is refused.
\<close>

definition int4 :: "int \<Rightarrow> bool" where
  "int4 i = (- 2147483648 \<le> i \<and> i \<le> 2147483647)"

text \<open>
  A \<^verbatim>\<open>varchar(n)\<close> column: a value of at most \<open>n\<close> characters is stored as it is; a
  longer one is refused, unless the characters beyond the width are all spaces, in which
  case the database stores the first \<open>n\<close> characters. \<open>None\<close> is the refusal.
\<close>

definition varchar :: "nat \<Rightarrow> string \<Rightarrow> string option" where
  "varchar n v =
     (if length v \<le> n then Some v
      else if list_all (\<lambda>c. c = CHR '' '') (drop n v) then Some (take n v)
      else None)"

definition varchar_opt :: "nat \<Rightarrow> string option \<Rightarrow> string option option" where
  "varchar_opt n v = (case v of None \<Rightarrow> Some None | Some t \<Rightarrow> map_option Some (varchar n t))"

text \<open>
  The \<^verbatim>\<open>date\<close> column. For the object \<^verbatim>\<open>new Date(s)\<close> the ORM sends the calendar date of
  the object in the time zone of the server as \<^verbatim>\<open>YYYY-MM-DD\<close>, and the database refuses
  what an invalid date gives. Which text that is depends on the date parser of the
  JavaScript engine and on the time zone, neither of which is in the sources: it is the
  parameter \<open>dt\<close> of the model, \<open>dt s\<close> being the text stored for \<^verbatim>\<open>new Date(s)\<close> and
  \<open>None\<close> the refusal. A string is sent as it is; the database refuses the empty one.
  The result is the value of the column as a row holds it.
\<close>

type_synonym date_text = "string \<Rightarrow> string option"

definition write_date :: "date_text \<Rightarrow> date_value option \<Rightarrow> date_value option option" where
  "write_date dt v =
     (case v of
        None \<Rightarrow> Some None
      | Some (Date s) \<Rightarrow> map_option (\<lambda>ymd. Some (DateString ymd)) (dt s)
      | Some (DateString s) \<Rightarrow> if s = [] then None else Some (Some (DateString s)))"

subsection \<open>Finding\<close>

text \<open>
  The \<^verbatim>\<open>select\<close> option of a find. Every list in the service names all columns but
  \<^verbatim>\<open>password\<close>, which is loaded only when the list names it; with no list the default
  columns are loaded, and the column's \<^verbatim>\<open>select: false\<close> leaves the password out. The
  other properties are hydrated from the row, \<^verbatim>\<open>dateOfBirth\<close> as the string that the
  row holds.
\<close>

definition hydrate :: "string list option \<Rightarrow> user \<Rightarrow> user" where
  "hydrate sel row =
     (case sel of
        None \<Rightarrow> row\<lparr>password := None\<rparr>
      | Some cols \<Rightarrow> if ''password'' \<in> set cols then row else row\<lparr>password := None\<rparr>)"

text \<open>
  A find by a text or boolean column; no value of such a condition is refused. A find by
  the identifier goes through \<open>repo_findOne_by_id\<close>, which binds the identifier to the
  32-bit column.
\<close>

definition repo_findOne :: "(user \<Rightarrow> bool) \<Rightarrow> string list option \<Rightarrow> store \<Rightarrow> user option" where
  "repo_findOne wh sel s = map_option (hydrate sel) (List.find wh (rows s))"

definition repo_findOne_by_id :: "int \<Rightarrow> string list option \<Rightarrow> store \<Rightarrow> error + user option" where
  "repo_findOne_by_id i sel s =
     (if int4 i then Inr (repo_findOne (\<lambda>u. u_id u = i) sel s) else Inl QueryFailedError)"

definition repo_find :: "(user \<Rightarrow> bool) \<Rightarrow> string list option \<Rightarrow> store \<Rightarrow> user list" where
  "repo_find wh sel s = map (hydrate sel) (filter wh (rows s))"

subsection \<open>Inserting\<close>

text \<open>
  The object built by \<^verbatim>\<open>userRepository.create({...})\<close>: a \<^verbatim>\<open>User\<close> that has no
  identifier, no timestamps and no \<^verbatim>\<open>isActive\<close> yet.
\<close>

record user_draft =
  d_firstName :: string
  d_lastName :: string
  d_email :: string
  d_password :: string
  d_roles :: "string list"
  d_dateOfBirth :: "date_value option"
  d_phoneNumber :: "string option"

text \<open>
  The row that an insert of the object writes, with the widths of the entity
  (\<^verbatim>\<open>firstName\<close> and \<^verbatim>\<open>lastName\<close> 100, \<^verbatim>\<open>email\<close> and \<^verbatim>\<open>password\<close> 255,
  \<^verbatim>\<open>phoneNumber\<close> 20), \<^verbatim>\<open>isActive\<close> from the column default \<^verbatim>\<open>true\<close> and both timestamp
  columns from the current time; \<open>None\<close> when a column refuses its value.
\<close>

definition insert_row :: "date_text \<Rightarrow> nat \<Rightarrow> int \<Rightarrow> user_draft \<Rightarrow> user option" where
  "insert_row dt now i d =
     do {
       fn \<leftarrow> varchar 100 (d_firstName d);
       ln \<leftarrow> varchar 100 (d_lastName d);
       em \<leftarrow> varchar 255 (d_email d);
       pw \<leftarrow> varchar 255 (d_password d);
       dob \<leftarrow> write_date dt (d_dateOfBirth d);
       ph \<leftarrow> varchar_opt 20 (d_phoneNumber d);
       Some \<lparr>u_id = i, firstName = fn, lastName = ln, email = em, password = Some pw,
             roles = d_roles d, dateOfBirth = dob, phoneNumber = ph, isActive = True,
             createdAt = now, updatedAt = now\<rparr>
     }"

text \<open>
  \<^verbatim>\<open>save\<close> of an object without identifier inserts a row. A value that its column refuses
  fails the statement and leaves the store alone; so does an exhausted sequence. The
  \<^verbatim>\<open>email\<close> column is unique: a row whose email is already stored is refused after the
  sequence has given its value, which is then lost. Otherwise the row is appended, and the
  object that was passed is returned with the generated columns filled in: its other
  properties are the values it was given, not those read back from the row.
\<close>

definition repo_save_new :: "date_text \<Rightarrow> nat \<Rightarrow> user_draft \<Rightarrow> store \<Rightarrow> (error + user) \<times> store" where
  "repo_save_new dt now d s =
     (case insert_row dt now (nextId s) d of
        None \<Rightarrow> (Inl QueryFailedError, s)
      | Some row \<Rightarrow>
          if \<not> int4 (nextId s) then (Inl QueryFailedError, s)
          else if \<exists>r\<in>set (rows s). email r = email row
          then (Inl QueryFailedError, s\<lparr>nextId := nextId s + 1\<rparr>)
          else
            (Inr \<lparr>u_id = nextId s,
                   firstName = d_firstName d,
                   lastName = d_lastName d,
                   email = d_email d,
                   password = Some (d_password d),
                   roles = d_roles d,
                   dateOfBirth = d_dateOfBirth d,
                   phoneNumber = d_phoneNumber d,
                   isActive = True,
                   createdAt = now,
                   updatedAt = now\<rparr>,
             s\<lparr>rows := rows s @ [row], nextId := nextId s + 1\<rparr>))"

subsection \<open>Updating\<close>

text \<open>
  \<^verbatim>\<open>save\<close> of a loaded object compares each property the object has with the row of its
  identifier and writes the columns that differ. A \<^verbatim>\<open>Date\<close> object is compared in the
  form in which it would be written, a string as it is. The password is not among the columns that the comparison reads
  back (\<^verbatim>\<open>select: false\<close>), so a password that the object has always counts as a
  difference; an object without the property leaves the stored password.
\<close>

definition date_differs :: "date_text \<Rightarrow> date_value option \<Rightarrow> date_value option \<Rightarrow> bool" where
  "date_differs dt ev rv =
     (case ev of
        None \<Rightarrow> rv \<noteq> None
      | Some (DateString t) \<Rightarrow> rv \<noteq> Some (DateString t)
      | Some (Date t) \<Rightarrow>
          (case dt t of None \<Rightarrow> True | Some ymd \<Rightarrow> rv \<noteq> Some (DateString ymd)))"

definition changed :: "date_text \<Rightarrow> user \<Rightarrow> user \<Rightarrow> bool" where
  "changed dt e row =
     (firstName e \<noteq> firstName row \<or> lastName e \<noteq> lastName row \<or> email e \<noteq> email row \<or>
      password e \<noteq> None \<or> roles e \<noteq> roles row \<or>
      date_differs dt (dateOfBirth e) (dateOfBirth row) \<or>
      phoneNumber e \<noteq> phoneNumber row \<or> isActive e \<noteq> isActive row)"

definition varchar_col :: "nat \<Rightarrow> string \<Rightarrow> string \<Rightarrow> string option" where
  "varchar_col n ev rv = (if ev = rv then Some rv else varchar n ev)"

text \<open>
  The row after the update: a column that differs takes the value of the object, as the
  column accepts it, the others keep theirs, and the \<^verbatim>\<open>UpdateDateColumn\<close> takes the
  current time; \<open>None\<close> when a column refuses its value.
\<close>

definition update_row :: "date_text \<Rightarrow> nat \<Rightarrow> user \<Rightarrow> user \<Rightarrow> user option" where
  "update_row dt now e row =
     do {
       fn \<leftarrow> varchar_col 100 (firstName e) (firstName row);
       ln \<leftarrow> varchar_col 100 (lastName e) (lastName row);
       em \<leftarrow> varchar_col 255 (email e) (email row);
       pw \<leftarrow> (case password e of
               None \<Rightarrow> Some (password row)
             | Some p \<Rightarrow> map_option Some (varchar 255 p));
       dob \<leftarrow> (if date_differs dt (dateOfBirth e) (dateOfBirth row)
              then write_date dt (dateOfBirth e) else Some (dateOfBirth row));
       ph \<leftarrow> (if phoneNumber e = phoneNumber row then Some (phoneNumber row)
             else varchar_opt 20 (phoneNumber e));
       Some (row\<lparr>firstName := fn, lastName := ln, email := em, password := pw,
                 roles := roles e, dateOfBirth := dob, phoneNumber := ph,
                 isActive := isActive e, updatedAt := now\<rparr>)
     }"

text \<open>
  When nothing differs no statement is issued: the store and the object stay as they
  are, \<^verbatim>\<open>updatedAt\<close> included. Otherwise the row is updated, unless a column refuses its
  value or the new email is that of another row, and the object is returned with the new
  \<^verbatim>\<open>updatedAt\<close>; its other properties are the values it had. Every call in the service
  saves an object that it has just loaded, so the row exists; were it missing, nothing
  would be updated.
\<close>

definition repo_save :: "date_text \<Rightarrow> nat \<Rightarrow> user \<Rightarrow> store \<Rightarrow> (error + user) \<times> store" where
  "repo_save dt now e s =
     (case List.find (\<lambda>r. u_id r = u_id e) (rows s) of
        None \<Rightarrow> (Inr e, s)
      | Some row \<Rightarrow>
          if \<not> changed dt e row then (Inr e, s)
          else
            (case update_row dt now e row of
               None \<Rightarrow> (Inl QueryFailedError, s)
             | Some row' \<Rightarrow>
                 if email row' \<noteq> email row \<and>
                    (\<exists>r\<in>set (rows s). u_id r \<noteq> u_id e \<and> email r = email row')
                 then (Inl QueryFailedError, s)
                 else
                   (Inr (e\<lparr>updatedAt := now\<rparr>),
                    s\<lparr>rows := map (\<lambda>r. if u_id r = u_id e then row' else r) (rows s)\<rparr>)))"

subsection \<open>Deleting\<close>

definition repo_delete :: "int \<Rightarrow> store \<Rightarrow> (error + nat) \<times> store" where
  "repo_delete i s =
     (if int4 i
      then (Inr (length (filter (\<lambda>row. u_id row = i) (rows s))),
            s\<lparr>rows := filter (\<lambda>row. u_id row \<noteq> i) (rows s)\<rparr>)
      else (Inl QueryFailedError, s))"

section \<open>UsersService\<close>

text \<open>
  The second part of users.controller.ts is the service (users.service.ts). Each method
  that writes takes the date parameter of the platform, the current time and the store,
  and returns its result together with the store it leaves; an exception is \<open>Inl\<close>.
\<close>

subsection \<open>Password strength and hashing\<close>

text \<open>
  \<^verbatim>\<open>/[...]/.test(password)\<close> for a one-character class: some position of the string holds
  a character of the class.
\<close>

fun regex_test :: "(char \<Rightarrow> bool) \<Rightarrow> string \<Rightarrow> bool" where
  "regex_test cls [] = False"
| "regex_test cls (c # cs) = (if cls c then True else regex_test cls cs)"

definition upperClass :: "char \<Rightarrow> bool" where
  "upperClass c = (CHR ''A'' \<le> c \<and> c \<le> CHR ''Z'')"

definition lowerClass :: "char \<Rightarrow> bool" where
  "lowerClass c = (CHR ''a'' \<le> c \<and> c \<le> CHR ''z'')"

definition digitClass :: "char \<Rightarrow> bool" where
  "digitClass c = (CHR ''0'' \<le> c \<and> c \<le> CHR ''9'')"

definition specialChars :: string where
  "specialChars = ''!@#$%^&*(),.?'' @ [CHR 0x22] @ '':{}|<>''"

definition specialClass :: "char \<Rightarrow> bool" where
  "specialClass c = (c \<in> set specialChars)"

definition isPasswordStrong :: "string \<Rightarrow> bool" where
  "isPasswordStrong pw =
     (let hasUpperCase = regex_test upperClass pw;
          hasLowerCase = regex_test lowerClass pw;
          hasNumbers = regex_test digitClass pw;
          hasSpecialChar = regex_test specialClass pw
      in hasUpperCase \<and> hasLowerCase \<and> hasNumbers \<and> hasSpecialChar)"

definition hashPassword :: "string \<Rightarrow> string" where
  "hashPassword pw = pw"

subsection \<open>Column lists and the stripping of the password\<close>

definition publicColumns :: "string list" where
  "publicColumns = [''id'', ''firstName'', ''lastName'', ''email'', ''dateOfBirth'',
     ''phoneNumber'', ''isActive'', ''createdAt'', ''updatedAt'', ''roles'']"

definition authColumns :: "string list" where
  "authColumns = [''id'', ''firstName'', ''lastName'', ''email'', ''password'',
     ''dateOfBirth'', ''phoneNumber'', ''isActive'', ''createdAt'', ''updatedAt'', ''roles'']"

text \<open>\<^verbatim>\<open>const { password: _, ...userWithoutPassword } = u\<close>\<close>

definition omit_password :: "user \<Rightarrow> user" where
  "omit_password u = u\<lparr>password := None\<rparr>"

subsection \<open>create\<close>

definition create_draft :: "createUserDto \<Rightarrow> user_draft" where
  "create_draft dto =
     (let hashedPassword = hashPassword (c_password dto)
      in \<lparr>d_firstName = c_firstName dto,
          d_lastName = c_lastName dto,
          d_email = c_email dto,
          d_password = hashedPassword,
          d_roles = (case c_roles dto of None \<Rightarrow> [''user''] | Some rs \<Rightarrow> rs),
          d_dateOfBirth =
            (case c_dateOfBirth dto of
               None \<Rightarrow> None
             | Some d \<Rightarrow> if d = [] then None else Some (Date d)),
          d_phoneNumber = c_phoneNumber dto\<rparr>)"

definition create :: "date_text \<Rightarrow> nat \<Rightarrow> createUserDto \<Rightarrow> store \<Rightarrow> (error + user) \<times> store" where
  "create dt now dto s =
     (case repo_findOne (\<lambda>u. email u = c_email dto) None s of
        Some existingUser \<Rightarrow> (Inl ConflictException, s)
      | None \<Rightarrow>
          if \<not> isPasswordStrong (c_password dto) then (Inl BadRequestException, s)
          else
            (case repo_save_new dt now (create_draft dto) s of
               (Inl e, s') \<Rightarrow> (Inl e, s')
             | (Inr savedUser, s') \<Rightarrow> (Inr (omit_password savedUser), s')))"

subsection \<open>The reads\<close>

definition findAll :: "store \<Rightarrow> user list" where
  "findAll s = repo_find (\<lambda>u. True) (Some publicColumns) s"

definition findByActiveStatus :: "bool \<Rightarrow> store \<Rightarrow> user list" where
  "findByActiveStatus active s = repo_find (\<lambda>u. isActive u = active) (Some publicColumns) s"

definition findOne :: "int \<Rightarrow> store \<Rightarrow> error + user" where
  "findOne i s =
     (case repo_findOne_by_id i (Some publicColumns) s of
        Inl e \<Rightarrow> Inl e
      | Inr None \<Rightarrow> Inl NotFoundException
      | Inr (Some u) \<Rightarrow> Inr u)"

definition findByEmail :: "string \<Rightarrow> store \<Rightarrow> user option" where
  "findByEmail e s = repo_findOne (\<lambda>u. email u = e) (Some publicColumns) s"

definition findByEmailForAuth :: "string \<Rightarrow> store \<Rightarrow> user option" where
  "findByEmailForAuth e s = repo_findOne (\<lambda>u. email u = e) (Some authColumns) s"

subsection \<open>update\<close>

text \<open>
  \<^verbatim>\<open>Object.assign(user, updateUserDto)\<close> copies every property the body has. A string is
  truthy when it is not empty, which is what the guards on \<^verbatim>\<open>email\<close> and
  \<^verbatim>\<open>dateOfBirth\<close> test.
\<close>

definition assign :: "user \<Rightarrow> updateUserDto \<Rightarrow> user" where
  "assign u dto =
     u\<lparr>firstName := (case p_firstName dto of None \<Rightarrow> firstName u | Some v \<Rightarrow> v),
       lastName := (case p_lastName dto of None \<Rightarrow> lastName u | Some v \<Rightarrow> v),
       email := (case p_email dto of None \<Rightarrow> email u | Some v \<Rightarrow> v),
       password := (case p_password dto of None \<Rightarrow> password u | Some v \<Rightarrow> Some v),
       roles := (case p_roles dto of None \<Rightarrow> roles u | Some v \<Rightarrow> v),
       dateOfBirth :=
         (case p_dateOfBirth dto of None \<Rightarrow> dateOfBirth u | Some v \<Rightarrow> Some (DateString v)),
       phoneNumber := (case p_phoneNumber dto of None \<Rightarrow> phoneNumber u | Some v \<Rightarrow> Some v),
       isActive := (case p_isActive dto of None \<Rightarrow> isActive u | Some v \<Rightarrow> v)\<rparr>"

definition emailConflict :: "user \<Rightarrow> updateUserDto \<Rightarrow> store \<Rightarrow> bool" where
  "emailConflict u dto s =
     (case p_email dto of
        None \<Rightarrow> False
      | Some e \<Rightarrow>
          if e \<noteq> [] \<and> e \<noteq> email u
          then (case repo_findOne (\<lambda>x. email x = e) None s of
                  None \<Rightarrow> False
                | Some existingUser \<Rightarrow> True)
          else False)"

definition convertDateOfBirth :: "updateUserDto \<Rightarrow> user \<Rightarrow> user" where
  "convertDateOfBirth dto u =
     (case p_dateOfBirth dto of
        None \<Rightarrow> u
      | Some d \<Rightarrow> if d \<noteq> [] then u\<lparr>dateOfBirth := Some (Date d)\<rparr> else u)"

definition update ::
  "date_text \<Rightarrow> nat \<Rightarrow> int \<Rightarrow> updateUserDto \<Rightarrow> store \<Rightarrow> (error + user) \<times> store" where
  "update dt now i dto s =
     (case repo_findOne_by_id i None s of
        Inl e \<Rightarrow> (Inl e, s)
      | Inr None \<Rightarrow> (Inl NotFoundException, s)
      | Inr (Some u) \<Rightarrow>
          if emailConflict u dto s then (Inl ConflictException, s)
          else
            (case repo_save dt now (convertDateOfBirth dto (assign u dto)) s of
               (Inl e, s') \<Rightarrow> (Inl e, s')
             | (Inr updatedUser, s') \<Rightarrow> (Inr (omit_password updatedUser), s')))"

subsection \<open>remove, deactivate, activate\<close>

definition remove :: "int \<Rightarrow> store \<Rightarrow> (error + unit) \<times> store" where
  "remove i s =
     (case repo_delete i s of
        (Inl e, s') \<Rightarrow> (Inl e, s')
      | (Inr affected, s') \<Rightarrow>
          if affected = 0 then (Inl NotFoundException, s') else (Inr (), s'))"

definition deactivate :: "date_text \<Rightarrow> nat \<Rightarrow> int \<Rightarrow> store \<Rightarrow> (error + user) \<times> store" where
  "deactivate dt now i s =
     (case repo_findOne_by_id i None s of
        Inl e \<Rightarrow> (Inl e, s)
      | Inr None \<Rightarrow> (Inl NotFoundException, s)
      | Inr (Some u) \<Rightarrow>
          (case repo_save dt now (u\<lparr>isActive := False\<rparr>) s of
             (Inl e, s') \<Rightarrow> (Inl e, s')
           | (Inr updatedUser, s') \<Rightarrow> (Inr (omit_password updatedUser), s')))"

definition activate :: "date_text \<Rightarrow> nat \<Rightarrow> int \<Rightarrow> store \<Rightarrow> (error + user) \<times> store" where
  "activate dt now i s =
     (case repo_findOne_by_id i None s of
        Inl e \<Rightarrow> (Inl e, s)
      | Inr None \<Rightarrow> (Inl NotFoundException, s)
      | Inr (Some u) \<Rightarrow>
          (case repo_save dt now (u\<lparr>isActive := True\<rparr>) s of
             (Inl e, s') \<Rightarrow> (Inl e, s')
           | (Inr updatedUser, s') \<Rightarrow> (Inr (omit_password updatedUser), s')))"

section \<open>Validation of the roles at the controller\<close>

text \<open>
  The global \<^verbatim>\<open>ValidationPipe\<close> (main.ts) rejects a request body with a
  \<^verbatim>\<open>BadRequestException\<close> when a decorator of the body's class fails, before the service
  is called. The decorators of \<^verbatim>\<open>roles\<close> are \<^verbatim>\<open>@IsOptional()\<close>, \<^verbatim>\<open>@IsArray()\<close>,
  \<^verbatim>\<open>@IsString({ each: true })\<close> and \<^verbatim>\<open>@IsIn(['user', 'admin', 'moderator'], { each: true })\<close>:
  a missing property passes, and an array passes when each of its elements is one of the
  three labels. The type of the field already makes the value an array of strings. The
  decorators of the other properties are not modelled: they only reject further bodies.
\<close>

definition allowedRoles :: "string list" where
  "allowedRoles = [''user'', ''admin'', ''moderator'']"

definition validateRoles :: "string list option \<Rightarrow> bool" where
  "validateRoles r =
     (case r of None \<Rightarrow> True | Some rs \<Rightarrow> list_all (\<lambda>x. x \<in> set allowedRoles) rs)"

definition controller_create ::
  "date_text \<Rightarrow> nat \<Rightarrow> createUserDto \<Rightarrow> store \<Rightarrow> (error + user) \<times> store" where
  "controller_create dt now dto s =
     (if validateRoles (c_roles dto) then create dt now dto s
      else (Inl BadRequestException, s))"

text \<open>
  Modelled from the spec: the decorators of \<^verbatim>\<open>UpdateUserDto\<close> are not among the sources.
  The specification says of every input that "a role not in the fixed set is rejected", so
  the \<^verbatim>\<open>roles\<close> of an update body pass the same check as those of a create body.
\<close>

definition controller_update ::
  "date_text \<Rightarrow> nat \<Rightarrow> int \<Rightarrow> updateUserDto \<Rightarrow> store \<Rightarrow> (error + user) \<times> store" where
  "controller_update dt now i dto s =
     (if validateRoles (p_roles dto) then update dt now i dto s
      else (Inl BadRequestException, s))"

text \<open>
  The requests that write, and a sequence of them, each with the time at which it is
  served. A request that fails leaves the store as the failed method left it.
\<close>

datatype request =
    PostUser createUserDto
  | PatchUser int updateUserDto
  | DeleteUser int
  | PatchDeactivate int
  | PatchActivate int

fun handle :: "date_text \<Rightarrow> nat \<Rightarrow> request \<Rightarrow> store \<Rightarrow> store" where
  "handle dt now (PostUser dto) s = snd (controller_create dt now dto s)"
| "handle dt now (PatchUser i dto) s = snd (controller_update dt now i dto s)"
| "handle dt now (DeleteUser i) s = snd (remove i s)"
| "handle dt now (PatchDeactivate i) s = snd (deactivate dt now i s)"
| "handle dt now (PatchActivate i) s = snd (activate dt now i s)"

fun run :: "date_text \<Rightarrow> (nat \<times> request) list \<Rightarrow> store \<Rightarrow> store" where
  "run dt [] s = s"
| "run dt ((now, r) # rs) s = run dt rs (handle dt now r s)"

fun request_roles :: "request \<Rightarrow> string list option" where
  "request_roles (PostUser dto) = c_roles dto"
| "request_roles (PatchUser i dto) = p_roles dto"
| "request_roles (DeleteUser i) = None"
| "request_roles (PatchDeactivate i) = None"
| "request_roles (PatchActivate i) = None"

text \<open>
  What the specification asks of the roles of a user: there is at least one, and each is
  one of the three labels.
\<close>

definition roles_ok :: "user \<Rightarrow> bool" where
  "roles_ok u = (roles u \<noteq> [] \<and> list_all (\<lambda>x. x \<in> set allowedRoles) (roles u))"

section \<open>Well-formed stores, reference rows and example inputs\<close>

text \<open>
  The identifier column is a primary key fed by a sequence that starts at 1: the
  identifiers of the rows are distinct, positive and below the next value of the
  sequence, which is positive and at most one beyond the 32-bit range. The date of birth
  of a row is the text of the column or nothing, never a \<^verbatim>\<open>Date\<close> object.
\<close>

definition stored_date :: "date_value option \<Rightarrow> bool" where
  "stored_date v = (case v of Some (Date t) \<Rightarrow> False | _ \<Rightarrow> True)"

definition store_ok :: "store \<Rightarrow> bool" where
  "store_ok s =
     (distinct (map u_id (rows s)) \<and>
      list_all (\<lambda>u. 0 < u_id u \<and> u_id u < nextId s \<and> stored_date (dateOfBirth u)) (rows s) \<and>
      0 < nextId s \<and> nextId s \<le> 2147483648)"

text \<open>
  A create body whose values the columns store as they are: the texts are within the
  widths, the date of birth, when there is one, is a date for the platform, and the
  sequence is not exhausted.
\<close>

definition fits :: "createUserDto \<Rightarrow> bool" where
  "fits dto =
     (length (c_firstName dto) \<le> 100 \<and> length (c_lastName dto) \<le> 100 \<and>
      length (c_email dto) \<le> 255 \<and> length (c_password dto) \<le> 255 \<and>
      (case c_phoneNumber dto of None \<Rightarrow> True | Some p \<Rightarrow> length p \<le> 20))"

definition date_accepted :: "date_text \<Rightarrow> string option \<Rightarrow> bool" where
  "date_accepted dt d = (case d of None \<Rightarrow> True | Some v \<Rightarrow> v = [] \<or> dt v \<noteq> None)"

text \<open>
  The user that the specification promises as the result of a successful create, with
  its password: the fields of the body, the date of birth as the object \<^verbatim>\<open>new Date\<close>
  built from it, \<^verbatim>\<open>isActive = true\<close>, the roles defaulted when unset, both timestamps the
  current time. It is what \<open>create\<close> is compared with below.
\<close>

definition spec_created :: "nat \<Rightarrow> createUserDto \<Rightarrow> store \<Rightarrow> user" where
  "spec_created now dto s =
     \<lparr>u_id = nextId s, firstName = c_firstName dto, lastName = c_lastName dto,
      email = c_email dto, password = Some (c_password dto),
      roles = (case c_roles dto of None \<Rightarrow> [''user''] | Some rs \<Rightarrow> rs),
      dateOfBirth = (case c_dateOfBirth dto of None \<Rightarrow> None
                     | Some d \<Rightarrow> if d = [] then None else Some (Date d)),
      phoneNumber = c_phoneNumber dto, isActive = True, createdAt = now, updatedAt = now\<rparr>"

text \<open>
  The same user as a find reads it back: every field as it is, but a date of birth that
  is a \<^verbatim>\<open>Date\<close> object as the text of the column.
\<close>

definition as_loaded :: "date_text \<Rightarrow> user \<Rightarrow> user" where
  "as_loaded dt u =
     u\<lparr>dateOfBirth :=
         (case dateOfBirth u of
            Some (Date d) \<Rightarrow> map_option DateString (dt d)
          | v \<Rightarrow> v)\<rparr>"

text \<open>
  A body of update whose values the columns store as they are, for the row \<open>old\<close> in the
  store \<open>s\<close>: the texts that are present are within the widths, a date of birth that is
  present is not empty and is a date for the platform, and an email that is present and
  differs from that of \<open>old\<close> is the email of no row.
\<close>

definition update_fits :: "date_text \<Rightarrow> updateUserDto \<Rightarrow> user \<Rightarrow> store \<Rightarrow> bool" where
  "update_fits dt dto old s =
     ((case p_firstName dto of None \<Rightarrow> True | Some v \<Rightarrow> length v \<le> 100) \<and>
      (case p_lastName dto of None \<Rightarrow> True | Some v \<Rightarrow> length v \<le> 100) \<and>
      (case p_email dto of
         None \<Rightarrow> True
       | Some v \<Rightarrow> length v \<le> 255 \<and> (v \<noteq> email old \<longrightarrow> (\<forall>r\<in>set (rows s). email r \<noteq> v))) \<and>
      (case p_password dto of None \<Rightarrow> True | Some v \<Rightarrow> length v \<le> 255) \<and>
      (case p_dateOfBirth dto of None \<Rightarrow> True | Some v \<Rightarrow> v \<noteq> [] \<and> dt v \<noteq> None) \<and>
      (case p_phoneNumber dto of None \<Rightarrow> True | Some v \<Rightarrow> length v \<le> 20))"

text \<open>
  The row that the specification promises after a successful update of the row \<open>old\<close>,
  but for \<^verbatim>\<open>updatedAt\<close>: each property present in the body overwrites the field (a date of
  birth as the text of the date it denotes), each other field keeps its value.
\<close>

definition spec_updated :: "date_text \<Rightarrow> updateUserDto \<Rightarrow> user \<Rightarrow> user" where
  "spec_updated dt dto old =
     \<lparr>u_id = u_id old,
      firstName = (case p_firstName dto of None \<Rightarrow> firstName old | Some v \<Rightarrow> v),
      lastName = (case p_lastName dto of None \<Rightarrow> lastName old | Some v \<Rightarrow> v),
      email = (case p_email dto of None \<Rightarrow> email old | Some v \<Rightarrow> v),
      password = (case p_password dto of None \<Rightarrow> password old | Some v \<Rightarrow> Some v),
      roles = (case p_roles dto of None \<Rightarrow> roles old | Some v \<Rightarrow> v),
      dateOfBirth =
        (case p_dateOfBirth dto of
           None \<Rightarrow> dateOfBirth old
         | Some v \<Rightarrow> map_option DateString (dt v)),
      phoneNumber = (case p_phoneNumber dto of None \<Rightarrow> phoneNumber old | Some v \<Rightarrow> Some v),
      isActive = (case p_isActive dto of None \<Rightarrow> isActive old | Some v \<Rightarrow> v),
      createdAt = createdAt old,
      updatedAt = updatedAt old\<rparr>"

text \<open>
  The user that update returns for it: the same fields without the password, the date of
  birth of the body as the object \<^verbatim>\<open>new Date\<close> built from it.
\<close>

definition spec_returned :: "updateUserDto \<Rightarrow> user \<Rightarrow> user" where
  "spec_returned dto row =
     row\<lparr>password := None,
         dateOfBirth :=
           (case p_dateOfBirth dto of None \<Rightarrow> dateOfBirth row | Some v \<Rightarrow> Some (Date v))\<rparr>"

text \<open>
  Whether the update writes: the body has a password, or some field of the promised row
  differs from the stored one.
\<close>

definition spec_writes :: "date_text \<Rightarrow> updateUserDto \<Rightarrow> user \<Rightarrow> bool" where
  "spec_writes dt dto old = (p_password dto \<noteq> None \<or> spec_updated dt dto old \<noteq> old)"

text \<open>
  An instance of the date parameter for the examples: a server whose time zone is UTC
  writes \<^verbatim>\<open>new Date('1990-01-01')\<close> as \<^verbatim>\<open>1990-01-01\<close>. It is the only date that the
  examples send.
\<close>

definition utcDate :: date_text where
  "utcDate s = (if s = ''1990-01-01'' then Some ''1990-01-01'' else None)"

text \<open>The bodies used by users.service.spec.ts, and variations of them.\<close>

definition johnDto :: createUserDto where
  "johnDto = \<lparr>c_firstName = ''John'', c_lastName = ''Doe'',
     c_email = ''john.doe@example.com'', c_password = ''SecurePass123!'',
     c_roles = None, c_dateOfBirth = Some ''1990-01-01'',
     c_phoneNumber = Some ''+1234567890''\<rparr>"


definition emptyRolesDto :: createUserDto where
  "emptyRolesDto = johnDto\<lparr>c_roles := Some []\<rparr>"




definition noChange :: updateUserDto where
  "noChange = \<lparr>p_firstName = None, p_lastName = None, p_email = None, p_password = None,
     p_roles = None, p_dateOfBirth = None, p_phoneNumber = None, p_isActive = None\<rparr>"

definition janeDto :: updateUserDto where
  "janeDto = noChange\<lparr>p_firstName := Some ''Jane''\<rparr>"


text \<open>
  The row of John as the store holds it after the create of the test suite at time 10 on
  the UTC server, and the store with that row.
\<close>

definition john :: user where
  "john = \<lparr>u_id = 1, firstName = ''John'', lastName = ''Doe'',
     email = ''john.doe@example.com'', password = Some ''SecurePass123!'',
     roles = [''user''], dateOfBirth = Some (DateString ''1990-01-01''),
     phoneNumber = Some ''+1234567890'', isActive = True,
     createdAt = 10, updatedAt = 10\<rparr>"

definition johnStore :: store where
  "johnStore = \<lparr>rows = [john], nextId = 2\<rparr>"

text \<open>
  What that create returns: John without the password and with the date of birth as the
  \<^verbatim>\<open>Date\<close> object that create built.
\<close>

definition johnReturned :: user where
  "johnReturned = john\<lparr>password := None, dateOfBirth := Some (Date ''1990-01-01'')\<rparr>"

text \<open>The store in which John has been deactivated at time 10.\<close>

definition inactiveStore :: store where
  "inactiveStore = \<lparr>rows = [john\<lparr>isActive := False\<rparr>], nextId = 2\<rparr>"

section \<open>Properties\<close>

subsection \<open>Password strength\<close>











lemma strong_example: "isPasswordStrong ''SecurePass123!''"
  by (simp add: isPasswordStrong_def upperClass_def lowerClass_def digitClass_def
      specialClass_def specialChars_def)


subsection \<open>What the columns accept\<close>

lemma varchar_fits: "length v \<le> n \<Longrightarrow> varchar n v = Some v"
  by (simp add: varchar_def)

lemma varchar_opt_fits:
  "(case v of None \<Rightarrow> True | Some p \<Rightarrow> length p \<le> n) \<Longrightarrow> varchar_opt n v = Some v"
  by (simp add: varchar_opt_def varchar_fits split: option.splits)


lemma write_date_draft:
  assumes "date_accepted dt d"
  shows "write_date dt (case d of None \<Rightarrow> None | Some v \<Rightarrow> if v = [] then None else Some (Date v))
           = Some (case d of None \<Rightarrow> None
                   | Some v \<Rightarrow> if v = [] then None else map_option DateString (dt v))"
  using assms by (auto simp: write_date_def date_accepted_def split: option.splits)

lemma insert_row_props:
  assumes "insert_row dt now i d = Some row"
  shows "u_id row = i" and "roles row = d_roles d" and "stored_date (dateOfBirth row)"
    and "isActive row" and "createdAt row = now" and "updatedAt row = now"
proof -
  from assms obtain fn ln em pw dob ph where
    w: "write_date dt (d_dateOfBirth d) = Some dob"
    and r: "row = \<lparr>u_id = i, firstName = fn, lastName = ln, email = em, password = Some pw,
             roles = d_roles d, dateOfBirth = dob, phoneNumber = ph, isActive = True,
             createdAt = now, updatedAt = now\<rparr>"
    by (auto simp: insert_row_def split: Option.bind_splits)
  from w have "stored_date dob"
    by (auto simp: write_date_def stored_date_def split: option.splits date_value.splits if_splits)
  with r show "u_id row = i" and "roles row = d_roles d" and "stored_date (dateOfBirth row)"
    and "isActive row" and "createdAt row = now" and "updatedAt row = now"
    by simp_all
qed

lemma insert_row_fits:
  assumes "fits dto" and "date_accepted dt (c_dateOfBirth dto)"
  shows "insert_row dt now (nextId s) (create_draft dto) = Some (as_loaded dt (spec_created now dto s))"
proof -
  from assms(1) have f: "varchar 100 (c_firstName dto) = Some (c_firstName dto)"
    "varchar 100 (c_lastName dto) = Some (c_lastName dto)"
    "varchar 255 (c_email dto) = Some (c_email dto)"
    "varchar 255 (c_password dto) = Some (c_password dto)"
    "varchar_opt 20 (c_phoneNumber dto) = Some (c_phoneNumber dto)"
    by (simp_all add: fits_def varchar_fits varchar_opt_fits)
  have l: "dateOfBirth (as_loaded dt (spec_created now dto s))
             = (case c_dateOfBirth dto of None \<Rightarrow> None
                | Some v \<Rightarrow> if v = [] then None else map_option DateString (dt v))"
    by (simp add: as_loaded_def spec_created_def split: option.splits)
  show ?thesis
    unfolding insert_row_def create_draft_def Let_def hashPassword_def
    by (simp add: f write_date_draft [OF assms(2)] as_loaded_def spec_created_def
        split: option.splits)
qed

subsection \<open>create\<close>

lemma repo_findOne_None_iff:
  "(repo_findOne wh sel s = None) = (\<forall>u\<in>set (rows s). \<not> wh u)"
  by (auto simp: repo_findOne_def find_None_iff)

lemma create_email_taken:
  assumes "\<exists>u\<in>set (rows s). email u = c_email dto"
  shows "create dt now dto s = (Inl ConflictException, s)"
proof -
  have "repo_findOne (\<lambda>u. email u = c_email dto) None s \<noteq> None"
    using assms by (simp add: repo_findOne_None_iff)
  then show ?thesis
    by (auto simp: create_def split: option.splits)
qed

lemma create_weak:
  assumes "\<forall>u\<in>set (rows s). email u \<noteq> c_email dto" and "\<not> isPasswordStrong (c_password dto)"
  shows "create dt now dto s = (Inl BadRequestException, s)"
proof -
  have "repo_findOne (\<lambda>u. email u = c_email dto) None s = None"
    using assms(1) by (simp add: repo_findOne_None_iff)
  then show ?thesis using assms(2) by (simp add: create_def)
qed

lemma create_strong:
  assumes "\<forall>u\<in>set (rows s). email u \<noteq> c_email dto" and "isPasswordStrong (c_password dto)"
  shows "create dt now dto s =
           (case repo_save_new dt now (create_draft dto) s of
              (Inl e, s') \<Rightarrow> (Inl e, s')
            | (Inr savedUser, s') \<Rightarrow> (Inr (omit_password savedUser), s'))"
proof -
  have "repo_findOne (\<lambda>u. email u = c_email dto) None s = None"
    using assms(1) by (simp add: repo_findOne_None_iff)
  then show ?thesis using assms(2) by (simp add: create_def)
qed

lemma saved_new_user:
  "\<lparr>u_id = nextId s,
     firstName = d_firstName (create_draft dto),
     lastName = d_lastName (create_draft dto),
     email = d_email (create_draft dto),
     password = Some (d_password (create_draft dto)),
     roles = d_roles (create_draft dto),
     dateOfBirth = d_dateOfBirth (create_draft dto),
     phoneNumber = d_phoneNumber (create_draft dto),
     isActive = True, createdAt = now, updatedAt = now\<rparr> = spec_created now dto s"
  by (simp add: create_draft_def spec_created_def hashPassword_def)

lemma repo_save_new_cases:
  "repo_save_new dt now (create_draft dto) s = (Inl QueryFailedError, s) \<or>
   repo_save_new dt now (create_draft dto) s = (Inl QueryFailedError, s\<lparr>nextId := nextId s + 1\<rparr>)
     \<and> int4 (nextId s) \<or>
   (\<exists>row. insert_row dt now (nextId s) (create_draft dto) = Some row \<and> int4 (nextId s) \<and>
      (\<forall>r\<in>set (rows s). email r \<noteq> email row) \<and>
      repo_save_new dt now (create_draft dto) s =
        (Inr (spec_created now dto s), s\<lparr>rows := rows s @ [row], nextId := nextId s + 1\<rparr>))"
proof (cases "insert_row dt now (nextId s) (create_draft dto)")
  case None
  then show ?thesis by (simp add: repo_save_new_def)
next
  case (Some row)
  then show ?thesis
    unfolding repo_save_new_def saved_new_user
    by (cases "int4 (nextId s)"; cases "\<exists>r\<in>set (rows s). email r = email row") auto
qed

lemma create_ok:
  assumes "\<forall>u\<in>set (rows s). email u \<noteq> c_email dto" and "isPasswordStrong (c_password dto)"
    and "fits dto" and "date_accepted dt (c_dateOfBirth dto)" and "int4 (nextId s)"
  shows "create dt now dto s =
           (Inr (omit_password (spec_created now dto s)),
            s\<lparr>rows := rows s @ [as_loaded dt (spec_created now dto s)], nextId := nextId s + 1\<rparr>)"
proof -
  have e: "email (as_loaded dt (spec_created now dto s)) = c_email dto"
    by (simp add: as_loaded_def spec_created_def)
  have "repo_save_new dt now (create_draft dto) s =
          (Inr (spec_created now dto s),
           s\<lparr>rows := rows s @ [as_loaded dt (spec_created now dto s)], nextId := nextId s + 1\<rparr>)"
    unfolding repo_save_new_def insert_row_fits [OF assms(3,4)] saved_new_user
    using assms(1,5) by (simp add: e)
  then show ?thesis
    by (simp add: create_strong [OF assms(1,2)])
qed

lemma create_cases:
  "create dt now dto s = (Inl ConflictException, s) \<or>
   create dt now dto s = (Inl BadRequestException, s) \<or>
   create dt now dto s = (Inl QueryFailedError, s) \<or>
   create dt now dto s = (Inl QueryFailedError, s\<lparr>nextId := nextId s + 1\<rparr>) \<and> int4 (nextId s) \<or>
   (\<exists>row. insert_row dt now (nextId s) (create_draft dto) = Some row \<and> int4 (nextId s) \<and>
      (\<forall>u\<in>set (rows s). email u \<noteq> c_email dto) \<and> isPasswordStrong (c_password dto) \<and>
      (\<forall>r\<in>set (rows s). email r \<noteq> email row) \<and>
      create dt now dto s =
        (Inr (omit_password (spec_created now dto s)),
         s\<lparr>rows := rows s @ [row], nextId := nextId s + 1\<rparr>))"
proof (cases "\<forall>u\<in>set (rows s). email u \<noteq> c_email dto")
  case False
  then show ?thesis using create_email_taken [of s dto dt now] by blast
next
  case free: True
  show ?thesis
  proof (cases "isPasswordStrong (c_password dto)")
    case False
    with free show ?thesis using create_weak [of s dto dt now] by blast
  next
    case True
    from repo_save_new_cases [of dt now dto s] show ?thesis
      unfolding create_strong [OF free True]
      using free True by (elim disjE exE conjE) simp_all
  qed
qed

lemma create_Inr_cases:
  assumes "create dt now dto s = (Inr u, s')"
  shows "\<exists>row. insert_row dt now (nextId s) (create_draft dto) = Some row \<and> int4 (nextId s) \<and>
      (\<forall>x\<in>set (rows s). email x \<noteq> c_email dto) \<and> isPasswordStrong (c_password dto) \<and>
      u = omit_password (spec_created now dto s) \<and>
      s' = s\<lparr>rows := rows s @ [row], nextId := nextId s + 1\<rparr>"
  using create_cases [of dt now dto s] assms by auto

subsection \<open>Lookups and saves in a well-formed store\<close>

lemma hydrate_public: "hydrate (Some publicColumns) row = row\<lparr>password := None\<rparr>"
  by (simp add: hydrate_def publicColumns_def)

lemma hydrate_auth: "hydrate (Some authColumns) row = row"
  by (simp add: hydrate_def authColumns_def)

lemma hydrate_default: "hydrate None row = row\<lparr>password := None\<rparr>"
  by (simp add: hydrate_def)

lemma find_distinct_key:
  assumes "distinct (map f xs)" and "x \<in> set xs"
  shows "List.find (\<lambda>y. f y = f x) xs = Some x"
  using assms by (induction xs) (auto simp: image_iff)


lemma store_ok_row:
  assumes "store_ok s" and "old \<in> set (rows s)"
  shows "int4 (u_id old)" and "stored_date (dateOfBirth old)" and "u_id old < nextId s"
  using assms by (auto simp: store_ok_def list_all_iff int4_def)

lemma store_ok_find:
  assumes "store_ok s" and "old \<in> set (rows s)"
  shows "List.find (\<lambda>r. u_id r = u_id old) (rows s) = Some old"
  using assms by (simp add: store_ok_def find_distinct_key)

lemma repo_findOne_stored:
  assumes "store_ok s" and "old \<in> set (rows s)"
  shows "repo_findOne_by_id (u_id old) sel s = Inr (Some (hydrate sel old))"
  using store_ok_find [OF assms] store_ok_row(1) [OF assms]
  by (simp add: repo_findOne_by_id_def repo_findOne_def)

lemma repo_save_stored:
  assumes "store_ok s" and "old \<in> set (rows s)" and "u_id e = u_id old"
  shows "repo_save dt now e s =
           (if \<not> changed dt e old then (Inr e, s)
            else
              (case update_row dt now e old of
                 None \<Rightarrow> (Inl QueryFailedError, s)
               | Some row' \<Rightarrow>
                   if email row' \<noteq> email old \<and>
                      (\<exists>r\<in>set (rows s). u_id r \<noteq> u_id old \<and> email r = email row')
                   then (Inl QueryFailedError, s)
                   else
                     (Inr (e\<lparr>updatedAt := now\<rparr>),
                      s\<lparr>rows := map (\<lambda>r. if u_id r = u_id old then row' else r) (rows s)\<rparr>)))"
  unfolding repo_save_def assms(3) store_ok_find [OF assms(1,2)] option.case
  by (rule refl)

lemma date_same:
  assumes "stored_date v"
  shows "\<not> date_differs dt v v"
  using assms by (auto simp: date_differs_def stored_date_def split: option.splits date_value.splits)

lemma same_flag: "isActive old = b \<Longrightarrow> old\<lparr>isActive := b\<rparr> = old"
  by simp

lemma map_replace_same:
  assumes "distinct (map f xs)" and "x \<in> set xs"
  shows "map (\<lambda>y. if f y = f x then x else y) xs = xs"
proof -
  have "map (\<lambda>y. if f y = f x then x else y) xs = map (\<lambda>y. y) xs"
  proof (rule map_cong [OF refl])
    fix y assume "y \<in> set xs"
    with assms have "f y = f x \<Longrightarrow> y = x"
      by (meson distinct_map inj_onD)
    then show "(if f y = f x then x else y) = y" by auto
  qed
  then show ?thesis by simp
qed

lemma replace_twice:
  assumes "u_id a = i"
  shows "map (\<lambda>r. if u_id r = i then b else r) (map (\<lambda>r. if u_id r = i then a else r) xs)
           = map (\<lambda>r. if u_id r = i then b else r) xs"
  using assms by (induction xs) auto

lemma replaced_mem:
  assumes "old \<in> set xs" and "u_id old = i"
  shows "new \<in> set (map (\<lambda>r. if u_id r = i then new else r) xs)"
  using assms by (auto simp: image_iff)

lemma store_ok_replace:
  assumes "store_ok s" and "u_id new = i" and "0 < i" and "i < nextId s"
    and "stored_date (dateOfBirth new)"
  shows "store_ok (s\<lparr>rows := map (\<lambda>r. if u_id r = i then new else r) (rows s)\<rparr>)"
proof -
  have k: "\<And>r. u_id (if u_id r = i then new else r) = u_id r"
    using assms(2) by simp
  have m: "map u_id (map (\<lambda>r. if u_id r = i then new else r) (rows s)) = map u_id (rows s)"
    unfolding map_map comp_def k by (rule refl)
  from assms(1) have d: "distinct (map u_id (rows s))"
    and l: "\<forall>u\<in>set (rows s). 0 < u_id u \<and> u_id u < nextId s \<and> stored_date (dateOfBirth u)"
    and n: "0 < nextId s" "nextId s \<le> 2147483648"
    by (simp_all add: store_ok_def list_all_iff)
  from d have "distinct (map u_id (map (\<lambda>r. if u_id r = i then new else r) (rows s)))"
    by (simp only: m)
  moreover have "\<forall>u\<in>set (map (\<lambda>r. if u_id r = i then new else r) (rows s)).
                   0 < u_id u \<and> u_id u < nextId s \<and> stored_date (dateOfBirth u)"
    using l assms(2-5) by auto
  ultimately show ?thesis using n
    by (simp add: store_ok_def list_all_iff del: map_map)
qed

subsection \<open>deactivate and activate on a stored user\<close>

lemma toggle_changed:
  assumes "stored_date (dateOfBirth old)"
  shows "changed dt ((hydrate None old)\<lparr>isActive := b\<rparr>) old = (isActive old \<noteq> b)"
  using date_same [OF assms, of dt]
  by (auto simp: changed_def hydrate_default)

lemma toggle_row:
  assumes "stored_date (dateOfBirth old)"
  shows "update_row dt now ((hydrate None old)\<lparr>isActive := b\<rparr>) old
           = Some (old\<lparr>isActive := b, updatedAt := now\<rparr>)"
  using date_same [OF assms, of dt]
  by (simp add: update_row_def varchar_col_def hydrate_default)

lemma toggle_save:
  assumes "store_ok s" and "old \<in> set (rows s)"
  shows "repo_save dt now ((hydrate None old)\<lparr>isActive := b\<rparr>) s =
           (if isActive old = b then (Inr (omit_password old), s)
            else (Inr (omit_password (old\<lparr>isActive := b, updatedAt := now\<rparr>)),
                  s\<lparr>rows := map (\<lambda>r. if u_id r = u_id old
                                      then old\<lparr>isActive := b, updatedAt := now\<rparr> else r) (rows s)\<rparr>))"
proof -
  have i: "u_id ((hydrate None old)\<lparr>isActive := b\<rparr>) = u_id old"
    by (simp add: hydrate_default)
  note t = toggle_changed [OF store_ok_row(2) [OF assms]] toggle_row [OF store_ok_row(2) [OF assms]]
  show ?thesis
  proof (cases "isActive old = b")
    case True
    then have "(hydrate None old)\<lparr>isActive := b\<rparr> = omit_password old"
      by (simp add: omit_password_def hydrate_default)
    with True show ?thesis
      unfolding repo_save_stored [OF assms i] t by simp
  next
    case False
    have "((hydrate None old)\<lparr>isActive := b\<rparr>)\<lparr>updatedAt := now\<rparr>
            = omit_password (old\<lparr>isActive := b, updatedAt := now\<rparr>)"
      by (simp add: omit_password_def hydrate_default)
    with False show ?thesis
      unfolding repo_save_stored [OF assms i] t by simp
  qed
qed

lemma omit_twice: "omit_password (omit_password u) = omit_password u"
  by (simp add: omit_password_def)

lemma deactivate_result:
  assumes "store_ok s" and "old \<in> set (rows s)"
  shows "deactivate dt now (u_id old) s =
           (if isActive old
            then (Inr (omit_password (old\<lparr>isActive := False, updatedAt := now\<rparr>)),
                  s\<lparr>rows := map (\<lambda>r. if u_id r = u_id old
                                      then old\<lparr>isActive := False, updatedAt := now\<rparr> else r)
                               (rows s)\<rparr>)
            else (Inr (omit_password old), s))"
  unfolding deactivate_def repo_findOne_stored [OF assms] sum.case option.case
    toggle_save [OF assms]
  by (simp add: omit_twice)

lemma activate_result:
  assumes "store_ok s" and "old \<in> set (rows s)"
  shows "activate dt now (u_id old) s =
           (if isActive old
            then (Inr (omit_password old), s)
            else (Inr (omit_password (old\<lparr>isActive := True, updatedAt := now\<rparr>)),
                  s\<lparr>rows := map (\<lambda>r. if u_id r = u_id old
                                      then old\<lparr>isActive := True, updatedAt := now\<rparr> else r)
                               (rows s)\<rparr>))"
  unfolding activate_def repo_findOne_stored [OF assms] sum.case option.case
    toggle_save [OF assms]
  by (simp add: omit_twice)

subsection \<open>update on a stored user\<close>

lemma assigned_id: "u_id (convertDateOfBirth dto (assign (hydrate None old) dto)) = u_id old"
  by (simp add: convertDateOfBirth_def assign_def hydrate_default split: option.splits)

lemma emailConflict_free:
  assumes "update_fits dt dto old s"
  shows "\<not> emailConflict (hydrate None old) dto s"
proof (cases "p_email dto")
  case None
  then show ?thesis by (simp add: emailConflict_def)
next
  case (Some e)
  show ?thesis
  proof (cases "e \<noteq> [] \<and> e \<noteq> email old")
    case True
    with assms Some have "repo_findOne (\<lambda>x. email x = e) None s = None"
      by (simp add: repo_findOne_None_iff update_fits_def)
    with Some show ?thesis by (simp add: emailConflict_def)
  next
    case False
    with Some show ?thesis by (auto simp: emailConflict_def hydrate_default)
  qed
qed

lemma assigned_date:
  assumes "update_fits dt dto old s"
  shows "dateOfBirth (convertDateOfBirth dto (assign (hydrate None old) dto))
           = (case p_dateOfBirth dto of None \<Rightarrow> dateOfBirth old | Some v \<Rightarrow> Some (Date v))"
  using assms
  by (simp add: convertDateOfBirth_def assign_def update_fits_def hydrate_default
      split: option.splits)

lemma assigned_fields:
  "firstName (convertDateOfBirth dto (assign (hydrate None old) dto))
     = (case p_firstName dto of None \<Rightarrow> firstName old | Some v \<Rightarrow> v)"
  "lastName (convertDateOfBirth dto (assign (hydrate None old) dto))
     = (case p_lastName dto of None \<Rightarrow> lastName old | Some v \<Rightarrow> v)"
  "email (convertDateOfBirth dto (assign (hydrate None old) dto))
     = (case p_email dto of None \<Rightarrow> email old | Some v \<Rightarrow> v)"
  "password (convertDateOfBirth dto (assign (hydrate None old) dto)) = p_password dto"
  "roles (convertDateOfBirth dto (assign (hydrate None old) dto))
     = (case p_roles dto of None \<Rightarrow> roles old | Some v \<Rightarrow> v)"
  "phoneNumber (convertDateOfBirth dto (assign (hydrate None old) dto))
     = (case p_phoneNumber dto of None \<Rightarrow> phoneNumber old | Some v \<Rightarrow> Some v)"
  "isActive (convertDateOfBirth dto (assign (hydrate None old) dto))
     = (case p_isActive dto of None \<Rightarrow> isActive old | Some v \<Rightarrow> v)"
  "createdAt (convertDateOfBirth dto (assign (hydrate None old) dto)) = createdAt old"
  "updatedAt (convertDateOfBirth dto (assign (hydrate None old) dto)) = updatedAt old"
  by (simp_all add: convertDateOfBirth_def assign_def hydrate_default split: option.splits)

lemma date_differs_assigned:
  assumes "update_fits dt dto old s" and "stored_date (dateOfBirth old)"
  shows "date_differs dt (case p_dateOfBirth dto of None \<Rightarrow> dateOfBirth old | Some v \<Rightarrow> Some (Date v))
           (dateOfBirth old)
         = (dateOfBirth (spec_updated dt dto old) \<noteq> dateOfBirth old)"
proof (cases "p_dateOfBirth dto")
  case None
  then show ?thesis
    using date_same [OF assms(2), of dt] by (simp add: spec_updated_def)
next
  case (Some v)
  with assms(1) obtain ymd where "dt v = Some ymd"
    by (auto simp: update_fits_def)
  with Some show ?thesis
    by (auto simp: date_differs_def spec_updated_def)
qed

lemma spec_updated_differs:
  "(spec_updated dt dto old \<noteq> old) =
     (firstName (spec_updated dt dto old) \<noteq> firstName old \<or>
      lastName (spec_updated dt dto old) \<noteq> lastName old \<or>
      email (spec_updated dt dto old) \<noteq> email old \<or>
      password (spec_updated dt dto old) \<noteq> password old \<or>
      roles (spec_updated dt dto old) \<noteq> roles old \<or>
      dateOfBirth (spec_updated dt dto old) \<noteq> dateOfBirth old \<or>
      phoneNumber (spec_updated dt dto old) \<noteq> phoneNumber old \<or>
      isActive (spec_updated dt dto old) \<noteq> isActive old)"
proof -
  have "u_id (spec_updated dt dto old) = u_id old"
    and "createdAt (spec_updated dt dto old) = createdAt old"
    and "updatedAt (spec_updated dt dto old) = updatedAt old"
    and "user.more (spec_updated dt dto old) = user.more old"
    by (simp_all add: spec_updated_def)
  then show ?thesis
    by (auto intro: user.equality)
qed

lemma spec_updated_fields:
  "firstName (spec_updated dt dto old) = (case p_firstName dto of None \<Rightarrow> firstName old | Some v \<Rightarrow> v)"
  "lastName (spec_updated dt dto old) = (case p_lastName dto of None \<Rightarrow> lastName old | Some v \<Rightarrow> v)"
  "email (spec_updated dt dto old) = (case p_email dto of None \<Rightarrow> email old | Some v \<Rightarrow> v)"
  "password (spec_updated dt dto old)
     = (case p_password dto of None \<Rightarrow> password old | Some v \<Rightarrow> Some v)"
  "roles (spec_updated dt dto old) = (case p_roles dto of None \<Rightarrow> roles old | Some v \<Rightarrow> v)"
  "phoneNumber (spec_updated dt dto old)
     = (case p_phoneNumber dto of None \<Rightarrow> phoneNumber old | Some v \<Rightarrow> Some v)"
  "isActive (spec_updated dt dto old) = (case p_isActive dto of None \<Rightarrow> isActive old | Some v \<Rightarrow> v)"
  by (simp_all add: spec_updated_def)

lemma assigned_changed:
  assumes "update_fits dt dto old s" and "stored_date (dateOfBirth old)"
  shows "changed dt (convertDateOfBirth dto (assign (hydrate None old) dto)) old
           = spec_writes dt dto old"
proof -
  have p: "(p_password dto \<noteq> None \<or> password (spec_updated dt dto old) \<noteq> password old)
             = (p_password dto \<noteq> None)"
    by (auto simp: spec_updated_fields split: option.splits)
  show ?thesis
    unfolding changed_def spec_writes_def spec_updated_differs
      assigned_fields assigned_date [OF assms(1)] date_differs_assigned [OF assms]
    using p by (auto simp: spec_updated_fields)
qed

lemma assigned_row:
  assumes "update_fits dt dto old s" and "stored_date (dateOfBirth old)"
  shows "update_row dt now (convertDateOfBirth dto (assign (hydrate None old) dto)) old
           = Some ((spec_updated dt dto old)\<lparr>updatedAt := now\<rparr>)"
proof -
  let ?e = "convertDateOfBirth dto (assign (hydrate None old) dto)"
  have fn: "varchar_col 100 (firstName ?e) (firstName old) = Some (firstName (spec_updated dt dto old))"
  proof (cases "p_firstName dto")
    case None
    then show ?thesis by (simp add: varchar_col_def assigned_fields spec_updated_fields)
  next
    case (Some v)
    with assms(1) have "length v \<le> 100" by (simp add: update_fits_def)
    with Some show ?thesis
      by (simp add: varchar_col_def assigned_fields spec_updated_fields varchar_fits)
  qed
  have ln: "varchar_col 100 (lastName ?e) (lastName old) = Some (lastName (spec_updated dt dto old))"
  proof (cases "p_lastName dto")
    case None
    then show ?thesis by (simp add: varchar_col_def assigned_fields spec_updated_fields)
  next
    case (Some v)
    with assms(1) have "length v \<le> 100" by (simp add: update_fits_def)
    with Some show ?thesis
      by (simp add: varchar_col_def assigned_fields spec_updated_fields varchar_fits)
  qed
  have em: "varchar_col 255 (email ?e) (email old) = Some (email (spec_updated dt dto old))"
  proof (cases "p_email dto")
    case None
    then show ?thesis by (simp add: varchar_col_def assigned_fields spec_updated_fields)
  next
    case (Some v)
    with assms(1) have "length v \<le> 255" by (simp add: update_fits_def)
    with Some show ?thesis
      by (simp add: varchar_col_def assigned_fields spec_updated_fields varchar_fits)
  qed
  have pw: "(case password ?e of None \<Rightarrow> Some (password old)
             | Some p \<Rightarrow> map_option Some (varchar 255 p))
            = Some (password (spec_updated dt dto old))"
  proof (cases "p_password dto")
    case None
    then show ?thesis by (simp add: assigned_fields spec_updated_fields)
  next
    case (Some v)
    with assms(1) have "length v \<le> 255" by (simp add: update_fits_def)
    with Some show ?thesis
      by (simp add: assigned_fields spec_updated_fields varchar_fits)
  qed
  have dob: "(if date_differs dt (dateOfBirth ?e) (dateOfBirth old)
              then write_date dt (dateOfBirth ?e) else Some (dateOfBirth old))
             = Some (dateOfBirth (spec_updated dt dto old))"
  proof (cases "p_dateOfBirth dto")
    case None
    then show ?thesis
      using date_same [OF assms(2), of dt]
      by (simp add: assigned_date [OF assms(1)] spec_updated_def)
  next
    case (Some v)
    with assms(1) obtain ymd where "dt v = Some ymd"
      by (auto simp: update_fits_def)
    with Some show ?thesis
      by (auto simp: assigned_date [OF assms(1)] spec_updated_def date_differs_def write_date_def)
  qed
  have ph: "(if phoneNumber ?e = phoneNumber old then Some (phoneNumber old)
             else varchar_opt 20 (phoneNumber ?e))
            = Some (phoneNumber (spec_updated dt dto old))"
  proof (cases "p_phoneNumber dto")
    case None
    then show ?thesis by (simp add: assigned_fields spec_updated_fields)
  next
    case (Some v)
    with assms(1) have "length v \<le> 20" by (simp add: update_fits_def)
    with Some show ?thesis
      by (simp add: assigned_fields spec_updated_fields varchar_opt_def varchar_fits)
  qed
  have r: "old\<lparr>firstName := firstName (spec_updated dt dto old),
              lastName := lastName (spec_updated dt dto old),
              email := email (spec_updated dt dto old),
              password := password (spec_updated dt dto old),
              roles := roles ?e,
              dateOfBirth := dateOfBirth (spec_updated dt dto old),
              phoneNumber := phoneNumber (spec_updated dt dto old),
              isActive := isActive ?e, updatedAt := now\<rparr>
           = (spec_updated dt dto old)\<lparr>updatedAt := now\<rparr>"
    by (simp add: assigned_fields spec_updated_def)
  show ?thesis
    unfolding update_row_def fn ln em pw dob ph
    by (simp add: r)
qed

lemma assigned_unique:
  assumes "update_fits dt dto old s"
  shows "\<not> (email (spec_updated dt dto old) \<noteq> email old \<and>
            (\<exists>r\<in>set (rows s). u_id r \<noteq> u_id old \<and> email r = email (spec_updated dt dto old)))"
  using assms
  by (auto simp: spec_updated_fields update_fits_def split: option.splits)

lemma assigned_returned:
  assumes "update_fits dt dto old s"
  shows "omit_password (convertDateOfBirth dto (assign (hydrate None old) dto))
           = spec_returned dto (spec_updated dt dto old)"
proof (rule user.equality)
  show "dateOfBirth (omit_password (convertDateOfBirth dto (assign (hydrate None old) dto)))
          = dateOfBirth (spec_returned dto (spec_updated dt dto old))"
    using assigned_date [OF assms]
    by (simp add: omit_password_def spec_returned_def spec_updated_def split: option.splits)
qed (simp_all add: omit_password_def spec_returned_def spec_updated_def
      convertDateOfBirth_def assign_def hydrate_default split: option.splits)

lemma update_result:
  assumes "store_ok s" and "old \<in> set (rows s)" and "update_fits dt dto old s"
  shows "update dt now (u_id old) dto s =
           (if spec_writes dt dto old
            then (Inr ((spec_returned dto (spec_updated dt dto old))\<lparr>updatedAt := now\<rparr>),
                  s\<lparr>rows := map (\<lambda>r. if u_id r = u_id old
                                      then (spec_updated dt dto old)\<lparr>updatedAt := now\<rparr> else r)
                               (rows s)\<rparr>)
            else (Inr (spec_returned dto (spec_updated dt dto old)), s))"
proof -
  let ?e = "convertDateOfBirth dto (assign (hydrate None old) dto)"
  note sd = store_ok_row(2) [OF assms(1,2)]
  have u: "(spec_updated dt dto old)\<lparr>updatedAt := now\<rparr> = row' \<Longrightarrow> email row' = email (spec_updated dt dto old)" for row'
    by auto
  have sv: "repo_save dt now ?e s =
          (if spec_writes dt dto old
           then (Inr (?e\<lparr>updatedAt := now\<rparr>),
                 s\<lparr>rows := map (\<lambda>r. if u_id r = u_id old
                                      then (spec_updated dt dto old)\<lparr>updatedAt := now\<rparr> else r)
                               (rows s)\<rparr>)
           else (Inr ?e, s))"
    unfolding repo_save_stored [OF assms(1,2) assigned_id]
      assigned_changed [OF assms(3) sd] assigned_row [OF assms(3) sd] option.case
    using assigned_unique [OF assms(3)] by auto
  have r: "omit_password (?e\<lparr>updatedAt := now\<rparr>)
             = (spec_returned dto (spec_updated dt dto old))\<lparr>updatedAt := now\<rparr>"
  proof -
    have "omit_password (?e\<lparr>updatedAt := now\<rparr>) = (omit_password ?e)\<lparr>updatedAt := now\<rparr>"
      by (simp add: omit_password_def)
    then show ?thesis by (simp only: assigned_returned [OF assms(3)])
  qed
  show ?thesis
    unfolding update_def repo_findOne_stored [OF assms(1,2)] sum.case option.case sv
    using emailConflict_free [OF assms(3)] assigned_returned [OF assms(3)] r
    by simp
qed

subsection \<open>The examples\<close>

lemma utcDate_birthday: "utcDate ''1990-01-01'' = Some ''1990-01-01''"
  by (simp add: utcDate_def)

lemma fits_johnDto:
  shows "fits johnDto" and "date_accepted utcDate (c_dateOfBirth johnDto)"
  by (simp_all add: fits_def johnDto_def date_accepted_def utcDate_birthday)

lemma store_ok_initial: "store_ok initial_store"
  by (simp add: store_ok_def initial_store_def)

lemma store_ok_johnStore: "store_ok johnStore"
  by (simp add: store_ok_def johnStore_def john_def stored_date_def)

lemma store_ok_inactiveStore: "store_ok inactiveStore"
  by (simp add: store_ok_def inactiveStore_def john_def stored_date_def)

lemma create_john: "create utcDate 10 johnDto initial_store = (Inr johnReturned, johnStore)"
proof -
  have e: "\<forall>u\<in>set (rows initial_store). email u \<noteq> c_email johnDto"
    by (simp add: initial_store_def)
  have p: "isPasswordStrong (c_password johnDto)"
    by (simp add: johnDto_def strong_example)
  have i: "int4 (nextId initial_store)"
    by (simp add: int4_def initial_store_def)
  have c: "spec_created 10 johnDto initial_store = john\<lparr>dateOfBirth := Some (Date ''1990-01-01'')\<rparr>"
    by (simp add: spec_created_def johnDto_def initial_store_def john_def)
  have l: "as_loaded utcDate (john\<lparr>dateOfBirth := Some (Date ''1990-01-01'')\<rparr>) = john"
    by (simp add: as_loaded_def utcDate_birthday john_def)
  have r: "omit_password (john\<lparr>dateOfBirth := Some (Date ''1990-01-01'')\<rparr>) = johnReturned"
    by (simp add: omit_password_def johnReturned_def)
  show ?thesis
    unfolding create_ok [OF e p fits_johnDto i] c l r
    by (simp add: initial_store_def johnStore_def)
qed

lemma john_reads:
  "findAll johnStore = [omit_password john]"
  "findByActiveStatus True johnStore = [omit_password john]"
  "findOne 1 johnStore = Inr (omit_password john)"
  "findByEmail ''john.doe@example.com'' johnStore = Some (omit_password john)"
  "findByEmailForAuth ''john.doe@example.com'' johnStore = Some john"
proof -
  have i: "u_id john = 1" and em: "email john = ''john.doe@example.com''" and act: "isActive john"
    by (simp_all add: john_def)
  show "findAll johnStore = [omit_password john]"
    "findByActiveStatus True johnStore = [omit_password john]"
    "findOne 1 johnStore = Inr (omit_password john)"
    "findByEmail ''john.doe@example.com'' johnStore = Some (omit_password john)"
    "findByEmailForAuth ''john.doe@example.com'' johnStore = Some john"
    by (simp_all add: findAll_def findByActiveStatus_def findOne_def findByEmail_def
        findByEmailForAuth_def repo_find_def repo_findOne_def repo_findOne_by_id_def int4_def
        hydrate_public hydrate_auth johnStore_def omit_password_def i em act)
qed

subsection \<open>create\<close>




text \<open>
  Claim C4. When a stored user has the email of the body, create fails with the duplicate
  email error (\<^verbatim>\<open>ConflictException\<close>) and leaves the store as it was: findAll returns
  the same users afterwards.
\<close>

theorem create_duplicate_email:
  assumes "\<exists>u\<in>set (rows s). email u = c_email dto"
  shows "create dt now dto s = (Inl ConflictException, s) \<and>
         findAll (snd (create dt now dto s)) = findAll s"
  using create_email_taken [OF assms, of dt now] by simp

theorem create_duplicate_email_witness:
  "create utcDate 20 johnDto johnStore = (Inl ConflictException, johnStore) \<and>
   length (findAll (snd (create utcDate 20 johnDto johnStore))) = 1"
proof -
  have "\<exists>u\<in>set (rows johnStore). email u = c_email johnDto"
    by (simp add: johnStore_def john_def johnDto_def)
  from create_duplicate_email [OF this, of utcDate 20] show ?thesis
    by (simp add: john_reads)
qed

subsection \<open>remove\<close>

text \<open>
  Claim C8, as amended. For an identifier within the 32-bit range of the column, remove
  fails with \<^verbatim>\<open>NotFoundException\<close> exactly when no stored user has the identifier, and
  then changes nothing; otherwise it returns no value, and findOne on the identifier then
  fails with \<^verbatim>\<open>NotFoundException\<close>. For an identifier outside the range remove fails with
  the error of the database and changes nothing.
\<close>

theorem remove_not_found_iff:
  "(int4 i \<longrightarrow>
      (fst (remove i s) = Inl NotFoundException) = (\<not> (\<exists>u\<in>set (rows s). u_id u = i))
      \<and> (fst (remove i s) = Inl NotFoundException \<longrightarrow> snd (remove i s) = s)
      \<and> (fst (remove i s) \<noteq> Inl NotFoundException \<longrightarrow>
           fst (remove i s) = Inr () \<and> findOne i (snd (remove i s)) = Inl NotFoundException))
   \<and> (\<not> int4 i \<longrightarrow> remove i s = (Inl QueryFailedError, s))"
proof -
  have a: "(length (filter (\<lambda>row. u_id row = i) (rows s)) = 0) = (\<not> (\<exists>u\<in>set (rows s). u_id u = i))"
    by (auto simp: filter_empty_conv)
  have b: "\<not> (\<exists>u\<in>set (rows s). u_id u = i) \<Longrightarrow> filter (\<lambda>row. u_id row \<noteq> i) (rows s) = rows s"
    by (simp add: filter_id_conv)
  have c: "List.find (\<lambda>u. u_id u = i) (filter (\<lambda>row. u_id row \<noteq> i) (rows s)) = None"
    by (simp add: find_None_iff)
  show ?thesis
    using a b c
    by (auto simp: remove_def repo_delete_def findOne_def repo_findOne_by_id_def repo_findOne_def)
qed

theorem remove_not_found_iff_witness:
  "int4 999 \<and> int4 1 \<and> \<not> int4 2147483648 \<and>
   fst (remove 999 johnStore) = Inl NotFoundException \<and> snd (remove 999 johnStore) = johnStore \<and>
   fst (remove 1 johnStore) = Inr () \<and> findOne 1 (snd (remove 1 johnStore)) = Inl NotFoundException \<and>
   remove 2147483648 johnStore = (Inl QueryFailedError, johnStore)"
proof -
  have a: "\<not> (\<exists>u\<in>set (rows johnStore). u_id u = 999)"
    by (simp add: johnStore_def john_def)
  have b: "\<exists>u\<in>set (rows johnStore). u_id u = 1"
    by (simp add: johnStore_def john_def)
  have r: "int4 999" "int4 1" "\<not> int4 2147483648"
    by (simp_all add: int4_def)
  from a b r remove_not_found_iff [of 999 johnStore] remove_not_found_iff [of 1 johnStore]
    remove_not_found_iff [of 2147483648 johnStore]
  show ?thesis by simp
qed

text \<open>
  Claim C8 as stated fails: no stored user has the identifier 2147483648, which
  \<^verbatim>\<open>ParseIntPipe\<close> lets through, but the database refuses the value for the 32-bit column,
  and remove fails with its error, not with \<^verbatim>\<open>NotFoundException\<close>.
\<close>

theorem remove_large_id_counterexample:
  "map u_id (rows johnStore) = [1] \<and> fst (remove 2147483648 johnStore) = Inl QueryFailedError"
  by (simp add: remove_def repo_delete_def int4_def johnStore_def john_def)

subsection \<open>The lookup for authentication\<close>






subsection \<open>create followed by findOne\<close>




subsection \<open>update\<close>

lemma store_same_rows: "s\<lparr>rows := rows s\<rparr> = s"
  by simp

lemma replace_by_itself:
  assumes "store_ok s" and "old \<in> set (rows s)"
  shows "s\<lparr>rows := map (\<lambda>r. if u_id r = u_id old then old else r) (rows s)\<rparr> = s"
proof -
  from assms(1) have "distinct (map u_id (rows s))" by (simp add: store_ok_def)
  from map_replace_same [OF this assms(2)] show ?thesis by simp
qed

lemma update_fits_janeDto: "update_fits dt janeDto old s"
  by (simp add: update_fits_def janeDto_def noChange_def)

lemma spec_updated_janeDto: "spec_updated dt janeDto old = old\<lparr>firstName := ''Jane''\<rparr>"
  by (simp add: spec_updated_def janeDto_def noChange_def)

lemma spec_returned_janeDto: "spec_returned janeDto row = omit_password row"
  by (simp add: spec_returned_def omit_password_def janeDto_def noChange_def)













subsection \<open>deactivate followed by activate\<close>

text \<open>
  Claim C7, as amended. For a stored user, deactivate returns the user with
  \<^verbatim>\<open>isActive = false\<close> and activate after it returns the user with \<^verbatim>\<open>isActive = true\<close>;
  the stored row then differs from the original one in \<^verbatim>\<open>isActive\<close> (now true) and
  \<^verbatim>\<open>updatedAt\<close> (now the time of the activate call) only, and no other row changes.
  deactivate sets \<^verbatim>\<open>updatedAt\<close> to its time when the user was active and writes nothing
  when the user was inactive already. So \<^verbatim>\<open>updatedAt\<close> does not decrease over the two
  calls when the clock does not, and on an active user it advances with each call when
  the clock does.
\<close>

theorem deactivate_then_activate:
  assumes "store_ok s" and "old \<in> set (rows s)"
  shows "deactivate dt t1 (u_id old) s
           = (Inr (omit_password
                     (old\<lparr>isActive := False,
                          updatedAt := (if isActive old then t1 else updatedAt old)\<rparr>)),
              s\<lparr>rows := map (\<lambda>r. if u_id r = u_id old
                                  then old\<lparr>isActive := False,
                                           updatedAt := (if isActive old then t1 else updatedAt old)\<rparr>
                                  else r) (rows s)\<rparr>)
         \<and> activate dt t2 (u_id old) (snd (deactivate dt t1 (u_id old) s))
           = (Inr (omit_password (old\<lparr>isActive := True, updatedAt := t2\<rparr>)),
              s\<lparr>rows := map (\<lambda>r. if u_id r = u_id old
                                  then old\<lparr>isActive := True, updatedAt := t2\<rparr> else r) (rows s)\<rparr>)
         \<and> (\<forall>u1 u2. fst (deactivate dt t1 (u_id old) s) = Inr u1 \<and>
                    fst (activate dt t2 (u_id old) (snd (deactivate dt t1 (u_id old) s))) = Inr u2 \<and>
                    updatedAt old \<le> t1 \<and> t1 \<le> t2
                    \<longrightarrow> updatedAt old \<le> updatedAt u1 \<and> updatedAt u1 \<le> updatedAt u2)
         \<and> (\<forall>u1 u2. fst (deactivate dt t1 (u_id old) s) = Inr u1 \<and>
                    fst (activate dt t2 (u_id old) (snd (deactivate dt t1 (u_id old) s))) = Inr u2 \<and>
                    isActive old \<and> updatedAt old < t1 \<and> t1 < t2
                    \<longrightarrow> updatedAt old < updatedAt u1 \<and> updatedAt u1 < updatedAt u2)"
proof -
  let ?t = "if isActive old then t1 else updatedAt old"
  let ?off = "old\<lparr>isActive := False, updatedAt := ?t\<rparr>"
  let ?s1 = "s\<lparr>rows := map (\<lambda>r. if u_id r = u_id old then ?off else r) (rows s)\<rparr>"
  let ?on = "old\<lparr>isActive := True, updatedAt := t2\<rparr>"
  have d: "deactivate dt t1 (u_id old) s = (Inr (omit_password ?off), ?s1)"
  proof (cases "isActive old")
    case True
    then show ?thesis by (simp add: deactivate_result [OF assms])
  next
    case False
    then have off: "old\<lparr>isActive := False, updatedAt := updatedAt old\<rparr> = old" by simp
    have st: "s\<lparr>rows := map (\<lambda>r. if u_id r = u_id old
                                     then old\<lparr>isActive := False, updatedAt := updatedAt old\<rparr>
                                     else r) (rows s)\<rparr> = s"
      unfolding off by (rule replace_by_itself [OF assms])
    from False have off': "old\<lparr>isActive := False\<rparr> = old" by simp
    from False show ?thesis
      by (simp add: deactivate_result [OF assms] st off')
  qed
  note row = store_ok_row [OF assms]
  from assms have pos: "0 < u_id old"
    by (auto simp: store_ok_def list_all_iff)
  have ok1: "store_ok ?s1"
    using assms(1) by (rule store_ok_replace) (use row pos in simp_all)
  have m1: "?off \<in> set (rows ?s1)"
    using replaced_mem [OF assms(2) refl, of ?off] by simp
  have "activate dt t2 (u_id ?off) ?s1 =
          (Inr (omit_password (?off\<lparr>isActive := True, updatedAt := t2\<rparr>)),
           ?s1\<lparr>rows := map (\<lambda>r. if u_id r = u_id ?off
                                 then ?off\<lparr>isActive := True, updatedAt := t2\<rparr> else r) (rows ?s1)\<rparr>)"
    using activate_result [OF ok1 m1, of dt t2] by simp
  then have a: "activate dt t2 (u_id old) ?s1 =
          (Inr (omit_password ?on),
           s\<lparr>rows := map (\<lambda>r. if u_id r = u_id old then ?on else r) (rows s)\<rparr>)"
    by (simp add: replace_twice)
  have u1: "updatedAt (omit_password ?off) = ?t" and u2: "updatedAt (omit_password ?on) = t2"
    by (simp_all add: omit_password_def)
  show ?thesis
    unfolding d snd_conv fst_conv a
    using u1 u2 by auto
qed

theorem deactivate_then_activate_witness:
  "store_ok johnStore \<and> isActive john \<and> updatedAt john < 20 \<and> (20::nat) < 30 \<and>
   deactivate utcDate 20 1 johnStore
     = (Inr (omit_password (john\<lparr>isActive := False, updatedAt := 20\<rparr>)),
        \<lparr>rows = [john\<lparr>isActive := False, updatedAt := 20\<rparr>], nextId = 2\<rparr>)
   \<and> activate utcDate 30 1 (snd (deactivate utcDate 20 1 johnStore))
       = (Inr (omit_password (john\<lparr>updatedAt := 30\<rparr>)), \<lparr>rows = [john\<lparr>updatedAt := 30\<rparr>], nextId = 2\<rparr>)
   \<and> updatedAt (omit_password (john\<lparr>isActive := False, updatedAt := 20\<rparr>)) = 20
   \<and> updatedAt (omit_password (john\<lparr>updatedAt := 30\<rparr>)) = 30"
proof -
  have m: "john \<in> set (rows johnStore)" by (simp add: johnStore_def)
  have i: "u_id john = 1" and a: "isActive john" "john\<lparr>isActive := True\<rparr> = john"
    and u: "updatedAt john = 10"
    by (simp_all add: john_def)
  note t = deactivate_then_activate [OF store_ok_johnStore m, of utcDate 20 30]
  have d: "deactivate utcDate 20 1 johnStore
     = (Inr (omit_password (john\<lparr>isActive := False, updatedAt := 20\<rparr>)),
        \<lparr>rows = [john\<lparr>isActive := False, updatedAt := 20\<rparr>], nextId = 2\<rparr>)"
    using t [THEN conjunct1] by (simp add: i a johnStore_def)
  have a': "activate utcDate 30 1 (snd (deactivate utcDate 20 1 johnStore))
       = (Inr (omit_password (john\<lparr>updatedAt := 30\<rparr>)), \<lparr>rows = [john\<lparr>updatedAt := 30\<rparr>], nextId = 2\<rparr>)"
    using t [THEN conjunct2, THEN conjunct1] by (simp add: i a johnStore_def)
  from d a' store_ok_johnStore show ?thesis
    by (simp add: a u omit_password_def)
qed

text \<open>
  Claim C7 as stated fails: on a user that is inactive already deactivate changes no
  column, so the ORM issues no statement and \<^verbatim>\<open>updatedAt\<close> does not advance with the call:
  at time 20 it is still 10.
\<close>

theorem deactivate_keeps_updatedAt_counterexample:
  "deactivate utcDate 20 1 inactiveStore
     = (Inr (omit_password (john\<lparr>isActive := False\<rparr>)), inactiveStore) \<and>
   updatedAt (omit_password (john\<lparr>isActive := False\<rparr>)) = 10 \<and>
   map updatedAt (rows inactiveStore) = [10]"
proof -
  have m: "john\<lparr>isActive := False\<rparr> \<in> set (rows inactiveStore)"
    by (simp add: inactiveStore_def)
  have i: "u_id (john\<lparr>isActive := False\<rparr>) = 1" by (simp add: john_def)
  from deactivate_result [OF store_ok_inactiveStore m, of utcDate 20]
  show ?thesis
    by (simp add: i omit_password_def inactiveStore_def john_def)
qed

subsection \<open>Nothing returned carries the password\<close>

lemma create_strips:
  assumes "create dt now dto s = (Inr u, s')"
  shows "password u = None"
  using create_Inr_cases [OF assms] by (auto simp: omit_password_def)

lemma update_strips:
  assumes "update dt now i dto s = (Inr u, s')"
  shows "password u = None"
  using assms
  by (auto simp: update_def omit_password_def
      split: sum.splits option.splits if_splits prod.splits)

lemma deactivate_strips:
  assumes "deactivate dt now i s = (Inr u, s')"
  shows "password u = None"
  using assms
  by (auto simp: deactivate_def omit_password_def split: sum.splits option.splits prod.splits)

lemma activate_strips:
  assumes "activate dt now i s = (Inr u, s')"
  shows "password u = None"
  using assms
  by (auto simp: activate_def omit_password_def split: sum.splits option.splits prod.splits)

lemma repo_find_public:
  assumes "u \<in> set (repo_find wh (Some publicColumns) s)"
  shows "password u = None"
  using assms by (auto simp: repo_find_def hydrate_public)

lemma repo_findOne_public:
  assumes "repo_findOne wh (Some publicColumns) s = Some u"
  shows "password u = None"
  using assms by (auto simp: repo_findOne_def hydrate_public)


lemma jane_writes: "spec_writes dt janeDto john"
proof -
  have "firstName john \<noteq> ''Jane''" by (simp add: john_def)
  then have "firstName (john\<lparr>firstName := ''Jane''\<rparr>) \<noteq> firstName john" by simp
  then have "john\<lparr>firstName := ''Jane''\<rparr> \<noteq> john" by force
  then show ?thesis by (simp add: spec_writes_def spec_updated_janeDto)
qed

lemma john_writes:
  "update utcDate 20 1 janeDto johnStore
     = (Inr (omit_password (john\<lparr>firstName := ''Jane'', updatedAt := 20\<rparr>)),
        \<lparr>rows = [john\<lparr>firstName := ''Jane'', updatedAt := 20\<rparr>], nextId = 2\<rparr>)"
  "deactivate utcDate 20 1 johnStore
     = (Inr (omit_password (john\<lparr>isActive := False, updatedAt := 20\<rparr>)),
        \<lparr>rows = [john\<lparr>isActive := False, updatedAt := 20\<rparr>], nextId = 2\<rparr>)"
  "activate utcDate 20 1 inactiveStore
     = (Inr (omit_password (john\<lparr>updatedAt := 20\<rparr>)),
        \<lparr>rows = [john\<lparr>updatedAt := 20\<rparr>], nextId = 2\<rparr>)"
proof -
  have m: "john \<in> set (rows johnStore)" by (simp add: johnStore_def)
  have m': "john\<lparr>isActive := False\<rparr> \<in> set (rows inactiveStore)"
    by (simp add: inactiveStore_def)
  have i: "u_id john = 1" and a: "isActive john" "john\<lparr>isActive := True\<rparr> = john"
    by (simp_all add: john_def)
  have r: "rows johnStore = [john]" "rows inactiveStore = [john\<lparr>isActive := False\<rparr>]"
    by (simp_all add: johnStore_def inactiveStore_def)
  have u: "update utcDate 20 (u_id john) janeDto johnStore
     = (Inr (omit_password (john\<lparr>firstName := ''Jane'', updatedAt := 20\<rparr>)),
        johnStore\<lparr>rows := [john\<lparr>firstName := ''Jane'', updatedAt := 20\<rparr>]\<rparr>)"
    unfolding update_result [OF store_ok_johnStore m update_fits_janeDto]
      spec_updated_janeDto spec_returned_janeDto r
    by (simp add: jane_writes omit_password_def)
  then show "update utcDate 20 1 janeDto johnStore
     = (Inr (omit_password (john\<lparr>firstName := ''Jane'', updatedAt := 20\<rparr>)),
        \<lparr>rows = [john\<lparr>firstName := ''Jane'', updatedAt := 20\<rparr>], nextId = 2\<rparr>)"
    unfolding i by (simp add: johnStore_def)
  have d: "deactivate utcDate 20 (u_id john) johnStore
     = (Inr (omit_password (john\<lparr>isActive := False, updatedAt := 20\<rparr>)),
        johnStore\<lparr>rows := [john\<lparr>isActive := False, updatedAt := 20\<rparr>]\<rparr>)"
    unfolding deactivate_result [OF store_ok_johnStore m] r
    by (simp add: a)
  then show "deactivate utcDate 20 1 johnStore
     = (Inr (omit_password (john\<lparr>isActive := False, updatedAt := 20\<rparr>)),
        \<lparr>rows = [john\<lparr>isActive := False, updatedAt := 20\<rparr>], nextId = 2\<rparr>)"
    unfolding i by (simp add: johnStore_def)
  have "activate utcDate 20 (u_id (john\<lparr>isActive := False\<rparr>)) inactiveStore
     = (Inr (omit_password (john\<lparr>updatedAt := 20\<rparr>)),
        inactiveStore\<lparr>rows := [john\<lparr>updatedAt := 20\<rparr>]\<rparr>)"
    unfolding activate_result [OF store_ok_inactiveStore m'] r
    using a(2) by simp
  then show "activate utcDate 20 1 inactiveStore
     = (Inr (omit_password (john\<lparr>updatedAt := 20\<rparr>)),
        \<lparr>rows = [john\<lparr>updatedAt := 20\<rparr>], nextId = 2\<rparr>)"
    using i by (simp add: inactiveStore_def)
qed

text \<open>
  Claim C1. The user returned by create, findOne, findByEmail, update, deactivate and
  activate, and each user returned by findAll and findByActiveStatus, has no password
  property.
\<close>

theorem password_never_returned:
  "(\<forall>u s'. create dt now dto s = (Inr u, s') \<longrightarrow> password u = None)
   \<and> (\<forall>u\<in>set (findAll s). password u = None)
   \<and> (\<forall>u\<in>set (findByActiveStatus active s). password u = None)
   \<and> (\<forall>u. findOne i s = Inr u \<longrightarrow> password u = None)
   \<and> (\<forall>u. findByEmail e s = Some u \<longrightarrow> password u = None)
   \<and> (\<forall>u s'. update dt now i pdto s = (Inr u, s') \<longrightarrow> password u = None)
   \<and> (\<forall>u s'. deactivate dt now i s = (Inr u, s') \<longrightarrow> password u = None)
   \<and> (\<forall>u s'. activate dt now i s = (Inr u, s') \<longrightarrow> password u = None)"
proof -
  have c: "\<forall>u s'. create dt now dto s = (Inr u, s') \<longrightarrow> password u = None"
    by (intro allI impI) (rule create_strips)
  have fa: "\<forall>u\<in>set (findAll s). password u = None"
    by (auto simp: findAll_def dest: repo_find_public)
  have fs: "\<forall>u\<in>set (findByActiveStatus active s). password u = None"
    by (auto simp: findByActiveStatus_def dest: repo_find_public)
  have fo: "\<forall>u. findOne i s = Inr u \<longrightarrow> password u = None"
    by (auto simp: findOne_def repo_findOne_by_id_def
        split: sum.splits option.splits if_splits dest: repo_findOne_public)
  have fe: "\<forall>u. findByEmail e s = Some u \<longrightarrow> password u = None"
    by (auto simp: findByEmail_def dest: repo_findOne_public)
  have up: "\<forall>u s'. update dt now i pdto s = (Inr u, s') \<longrightarrow> password u = None"
    by (intro allI impI) (rule update_strips)
  have de: "\<forall>u s'. deactivate dt now i s = (Inr u, s') \<longrightarrow> password u = None"
    by (intro allI impI) (rule deactivate_strips)
  have ac: "\<forall>u s'. activate dt now i s = (Inr u, s') \<longrightarrow> password u = None"
    by (intro allI impI) (rule activate_strips)
  show ?thesis
    by (intro conjI) (rule c fa fs fo fe up de ac)+
qed


theorem password_never_returned_witness:
  "create utcDate 10 johnDto initial_store = (Inr johnReturned, johnStore)
   \<and> findAll johnStore = [omit_password john]
   \<and> findByActiveStatus True johnStore = [omit_password john]
   \<and> findOne 1 johnStore = Inr (omit_password john)
   \<and> findByEmail ''john.doe@example.com'' johnStore = Some (omit_password john)
   \<and> fst (update utcDate 20 1 janeDto johnStore)
       = Inr (omit_password (john\<lparr>firstName := ''Jane'', updatedAt := 20\<rparr>))
   \<and> fst (deactivate utcDate 20 1 johnStore)
       = Inr (omit_password (john\<lparr>isActive := False, updatedAt := 20\<rparr>))
   \<and> fst (activate utcDate 20 1 inactiveStore)
       = Inr (omit_password (john\<lparr>updatedAt := 20\<rparr>))
   \<and> password johnReturned = None
   \<and> password (omit_password john) = None
   \<and> password (omit_password (john\<lparr>firstName := ''Jane'', updatedAt := 20\<rparr>)) = None
   \<and> password (omit_password (john\<lparr>isActive := False, updatedAt := 20\<rparr>)) = None
   \<and> password (omit_password (john\<lparr>updatedAt := 20\<rparr>)) = None"
proof -
  note c2 = conjunct2
  note t0 = password_never_returned
      [of utcDate 10 johnDto initial_store True 1 "''john.doe@example.com''" janeDto]
  note t1 = password_never_returned
      [of utcDate 20 johnDto johnStore True 1 "''john.doe@example.com''" janeDto]
  note t2 = password_never_returned
      [of utcDate 20 johnDto inactiveStore True 1 "''john.doe@example.com''" janeDto]
  have p0: "password johnReturned = None"
    by (rule t0 [THEN conjunct1, rule_format, OF create_john])
  have p1: "password (omit_password john) = None"
    by (rule t1 [THEN c2, THEN c2, THEN c2, THEN conjunct1, rule_format, OF john_reads(3)])
  have p2: "password (omit_password (john\<lparr>firstName := ''Jane'', updatedAt := 20\<rparr>)) = None"
    by (rule t1 [THEN c2, THEN c2, THEN c2, THEN c2, THEN c2, THEN conjunct1, rule_format,
          OF john_writes(1)])
  have p3: "password (omit_password (john\<lparr>isActive := False, updatedAt := 20\<rparr>)) = None"
    by (rule t1 [THEN c2, THEN c2, THEN c2, THEN c2, THEN c2, THEN c2, THEN conjunct1,
          rule_format, OF john_writes(2)])
  have p4: "password (omit_password (john\<lparr>updatedAt := 20\<rparr>)) = None"
    by (rule t2 [THEN c2, THEN c2, THEN c2, THEN c2, THEN c2, THEN c2, THEN c2,
          rule_format, OF john_writes(3)])
  have w: "fst (update utcDate 20 1 janeDto johnStore)
       = Inr (omit_password (john\<lparr>firstName := ''Jane'', updatedAt := 20\<rparr>))"
    "fst (deactivate utcDate 20 1 johnStore)
       = Inr (omit_password (john\<lparr>isActive := False, updatedAt := 20\<rparr>))"
    "fst (activate utcDate 20 1 inactiveStore) = Inr (omit_password (john\<lparr>updatedAt := 20\<rparr>))"
    by (simp_all only: john_writes fst_conv)
  show ?thesis
    by (intro conjI) (rule create_john john_reads(1-4) w p0 p1 p2 p3 p4)+
qed

subsection \<open>The roles of the stored users\<close>

lemma roles_hydrate: "roles (hydrate sel row) = roles row"
  by (simp add: hydrate_def split: option.splits)

lemma repo_findOne_mem:
  assumes "repo_findOne wh sel s = Some u"
  shows "\<exists>row\<in>set (rows s). u = hydrate sel row"
proof -
  from assms obtain row where "List.find wh (rows s) = Some row" and "u = hydrate sel row"
    by (auto simp: repo_findOne_def)
  then show ?thesis
    by (auto simp: find_Some_iff)
qed

lemma repo_findOne_roles_ok:
  assumes "repo_findOne wh sel s = Some u" and "\<forall>r\<in>set (rows s). roles_ok r"
  shows "roles_ok u"
  using repo_findOne_mem [OF assms(1)] assms(2)
  by (auto simp: roles_ok_def roles_hydrate)

lemma repo_findOne_by_id_roles_ok:
  assumes "repo_findOne_by_id i sel s = Inr (Some u)" and "\<forall>r\<in>set (rows s). roles_ok r"
  shows "roles_ok u"
proof -
  from assms(1) have "repo_findOne (\<lambda>u. u_id u = i) sel s = Some u"
    by (simp add: repo_findOne_by_id_def split: if_splits)
  then show ?thesis using assms(2) by (rule repo_findOne_roles_ok)
qed

lemma update_row_props:
  assumes "update_row dt now e row = Some row'"
  shows "roles row' = roles e" and "u_id row' = u_id row"
    and "stored_date (dateOfBirth row) \<Longrightarrow> stored_date (dateOfBirth row')"
proof -
  from assms obtain fn ln em pw dob ph where
    w: "(if date_differs dt (dateOfBirth e) (dateOfBirth row)
         then write_date dt (dateOfBirth e) else Some (dateOfBirth row)) = Some dob"
    and r: "row' = row\<lparr>firstName := fn, lastName := ln, email := em, password := pw,
                 roles := roles e, dateOfBirth := dob, phoneNumber := ph,
                 isActive := isActive e, updatedAt := now\<rparr>"
    by (auto simp: update_row_def split: Option.bind_splits)
  from r show "roles row' = roles e" and "u_id row' = u_id row" by simp_all
  assume "stored_date (dateOfBirth row)"
  with w have "stored_date dob"
    by (auto simp: write_date_def stored_date_def split: option.splits date_value.splits if_splits)
  with r show "stored_date (dateOfBirth row')" by simp
qed

lemma repo_save_cases:
  "snd (repo_save dt now e s) = s \<or>
   (\<exists>row row'. row \<in> set (rows s) \<and> u_id row = u_id e \<and> update_row dt now e row = Some row' \<and>
      snd (repo_save dt now e s)
        = s\<lparr>rows := map (\<lambda>r. if u_id r = u_id e then row' else r) (rows s)\<rparr>)"
proof (cases "List.find (\<lambda>r. u_id r = u_id e) (rows s)")
  case None
  then show ?thesis by (simp add: repo_save_def)
next
  case (Some row)
  then have m: "row \<in> set (rows s)" and i: "u_id row = u_id e"
    by (auto simp: find_Some_iff)
  show ?thesis
  proof (cases "update_row dt now e row")
    case None
    with Some show ?thesis by (simp add: repo_save_def)
  next
    case u: (Some row')
    with Some m i show ?thesis
      by (auto simp: repo_save_def)
  qed
qed

lemma repo_save_roles_ok:
  assumes "roles_ok e" and "\<forall>r\<in>set (rows s). roles_ok r"
  shows "\<forall>r\<in>set (rows (snd (repo_save dt now e s))). roles_ok r"
proof -
  from repo_save_cases [of dt now e s] show ?thesis
  proof (elim disjE exE conjE)
    assume "snd (repo_save dt now e s) = s"
    with assms(2) show ?thesis by simp
  next
    fix row row'
    assume u: "update_row dt now e row = Some row'"
      and s': "snd (repo_save dt now e s)
                 = s\<lparr>rows := map (\<lambda>r. if u_id r = u_id e then row' else r) (rows s)\<rparr>"
    from update_row_props(1) [OF u] assms(1) have "roles_ok row'"
      by (simp add: roles_ok_def)
    with assms(2) show ?thesis
      unfolding s' by auto
  qed
qed

lemma default_roles_ok: "list_all (\<lambda>x. x \<in> set allowedRoles) [''user'']"
  by (simp add: allowedRoles_def)

lemma draft_roles_ok:
  assumes "validateRoles (c_roles dto)" and "c_roles dto \<noteq> Some []"
  shows "d_roles (create_draft dto) \<noteq> [] \<and>
         list_all (\<lambda>x. x \<in> set allowedRoles) (d_roles (create_draft dto))"
proof (cases "c_roles dto")
  case None
  then have "d_roles (create_draft dto) = [''user'']" by (simp add: create_draft_def)
  then show ?thesis using default_roles_ok by simp
next
  case (Some rs)
  then have "d_roles (create_draft dto) = rs" by (simp add: create_draft_def)
  with assms Some show ?thesis by (simp add: validateRoles_def)
qed

lemma create_rows:
  "rows (snd (create dt now dto s)) = rows s \<or>
   (\<exists>row. insert_row dt now (nextId s) (create_draft dto) = Some row \<and>
      rows (snd (create dt now dto s)) = rows s @ [row])"
  using create_cases [of dt now dto s] by auto

lemma create_roles_ok:
  assumes "validateRoles (c_roles dto)" and "c_roles dto \<noteq> Some []"
    and "\<forall>r\<in>set (rows s). roles_ok r"
  shows "\<forall>r\<in>set (rows (snd (create dt now dto s))). roles_ok r"
proof -
  from create_rows [of dt now dto s] show ?thesis
  proof (elim disjE exE conjE)
    assume "rows (snd (create dt now dto s)) = rows s"
    with assms(3) show ?thesis by simp
  next
    fix row
    assume i: "insert_row dt now (nextId s) (create_draft dto) = Some row"
      and r: "rows (snd (create dt now dto s)) = rows s @ [row]"
    from insert_row_props(2) [OF i] draft_roles_ok [OF assms(1,2)] have "roles_ok row"
      by (simp add: roles_ok_def)
    with assms(3) show ?thesis unfolding r by auto
  qed
qed

lemma assigned_roles_ok:
  assumes "validateRoles (p_roles dto)" and "p_roles dto \<noteq> Some []" and "roles_ok u"
  shows "roles_ok (convertDateOfBirth dto (assign u dto))"
proof -
  have "roles (convertDateOfBirth dto (assign u dto))
          = (case p_roles dto of None \<Rightarrow> roles u | Some v \<Rightarrow> v)"
    by (simp add: convertDateOfBirth_def assign_def split: option.splits)
  with assms show ?thesis
    by (simp add: roles_ok_def validateRoles_def split: option.splits)
qed

lemma saved_rows:
  "rows (snd (case repo_save dt now e s of
                (Inl err, s') \<Rightarrow> (Inl err, s')
              | (Inr updatedUser, s') \<Rightarrow> (Inr (omit_password updatedUser), s')))
     = rows (snd (repo_save dt now e s))"
  by (simp split: prod.splits sum.splits)

lemma update_roles_ok:
  assumes "validateRoles (p_roles dto)" and "p_roles dto \<noteq> Some []"
    and "\<forall>r\<in>set (rows s). roles_ok r"
  shows "\<forall>r\<in>set (rows (snd (update dt now i dto s))). roles_ok r"
proof (cases "repo_findOne_by_id i None s")
  case (Inl e)
  then show ?thesis using assms(3) by (simp add: update_def)
next
  case (Inr found)
  show ?thesis
  proof (cases found)
    case None
    with Inr show ?thesis using assms(3) by (simp add: update_def)
  next
    case (Some u)
    with Inr have "roles_ok u" using assms(3) by (simp add: repo_findOne_by_id_roles_ok)
    with assms(1,2) have "roles_ok (convertDateOfBirth dto (assign u dto))"
      by (rule assigned_roles_ok)
    then have "\<forall>r\<in>set (rows (snd (repo_save dt now (convertDateOfBirth dto (assign u dto)) s))).
                 roles_ok r"
      using assms(3) by (rule repo_save_roles_ok)
    with Inr Some assms(3) show ?thesis
      by (simp add: update_def saved_rows)
  qed
qed

lemma toggle_roles_ok:
  assumes "\<forall>r\<in>set (rows s). roles_ok r"
  shows "\<forall>r\<in>set (rows (snd (deactivate dt now i s))). roles_ok r"
    and "\<forall>r\<in>set (rows (snd (activate dt now i s))). roles_ok r"
proof -
  have k: "\<forall>r\<in>set (rows (snd (repo_save dt now (u\<lparr>isActive := b\<rparr>) s))). roles_ok r"
    if "repo_findOne_by_id i None s = Inr (Some u)" for u b
  proof -
    from that assms have "roles_ok u" by (rule repo_findOne_by_id_roles_ok)
    then have "roles_ok (u\<lparr>isActive := b\<rparr>)" by (simp add: roles_ok_def)
    then show ?thesis using assms by (rule repo_save_roles_ok)
  qed
  show "\<forall>r\<in>set (rows (snd (deactivate dt now i s))). roles_ok r"
    using assms k by (simp add: deactivate_def saved_rows split: sum.splits option.splits)
  show "\<forall>r\<in>set (rows (snd (activate dt now i s))). roles_ok r"
    using assms k by (simp add: activate_def saved_rows split: sum.splits option.splits)
qed

lemma remove_roles_ok:
  assumes "\<forall>r\<in>set (rows s). roles_ok r"
  shows "\<forall>r\<in>set (rows (snd (remove i s))). roles_ok r"
  using assms by (simp add: remove_def repo_delete_def)

lemma controller_create_roles_ok:
  assumes "c_roles dto \<noteq> Some []" and "\<forall>u\<in>set (rows s). roles_ok u"
  shows "\<forall>u\<in>set (rows (snd (controller_create dt now dto s))). roles_ok u"
proof (cases "validateRoles (c_roles dto)")
  case True
  then have "controller_create dt now dto s = create dt now dto s"
    by (simp add: controller_create_def)
  with create_roles_ok [OF True assms] show ?thesis by (simp only:)
next
  case False
  then have "controller_create dt now dto s = (Inl BadRequestException, s)"
    by (simp add: controller_create_def)
  with assms(2) show ?thesis by (simp only: snd_conv)
qed

lemma controller_update_roles_ok:
  assumes "p_roles dto \<noteq> Some []" and "\<forall>u\<in>set (rows s). roles_ok u"
  shows "\<forall>u\<in>set (rows (snd (controller_update dt now i dto s))). roles_ok u"
proof (cases "validateRoles (p_roles dto)")
  case True
  then have "controller_update dt now i dto s = update dt now i dto s"
    by (simp add: controller_update_def)
  with update_roles_ok [OF True assms] show ?thesis by (simp only:)
next
  case False
  then have "controller_update dt now i dto s = (Inl BadRequestException, s)"
    by (simp add: controller_update_def)
  with assms(2) show ?thesis by (simp only: snd_conv)
qed

lemma handle_roles_ok:
  assumes "request_roles r \<noteq> Some []" and "\<forall>u\<in>set (rows s). roles_ok u"
  shows "\<forall>u\<in>set (rows (handle dt now r s)). roles_ok u"
proof (cases r)
  case (PostUser dto)
  with assms(1) have "c_roles dto \<noteq> Some []" by simp
  from controller_create_roles_ok [OF this assms(2)] PostUser show ?thesis
    by (simp only: handle.simps)
next
  case (PatchUser i dto)
  with assms(1) have "p_roles dto \<noteq> Some []" by simp
  from controller_update_roles_ok [OF this assms(2)] PatchUser show ?thesis
    by (simp only: handle.simps)
next
  case (DeleteUser i)
  with remove_roles_ok [OF assms(2)] show ?thesis by (simp only: handle.simps)
next
  case (PatchDeactivate i)
  with toggle_roles_ok(1) [OF assms(2)] show ?thesis by (simp only: handle.simps)
next
  case (PatchActivate i)
  with toggle_roles_ok(2) [OF assms(2)] show ?thesis by (simp only: handle.simps)
qed

lemma run_roles_ok:
  assumes "\<forall>(now, r)\<in>set reqs. request_roles r \<noteq> Some []" and "\<forall>u\<in>set (rows s). roles_ok u"
  shows "\<forall>u\<in>set (rows (run dt reqs s)). roles_ok u"
  using assms
proof (induction reqs arbitrary: s)
  case Nil
  then show ?case by simp
next
  case (Cons q reqs)
  obtain now r where q: "q = (now, r)" by (cases q)
  from Cons.prems(1) q have "request_roles r \<noteq> Some []" by simp
  then have "\<forall>u\<in>set (rows (handle dt now r s)). roles_ok u"
    using Cons.prems(2) by (rule handle_roles_ok)
  moreover from Cons.prems(1) have "\<forall>(now, r)\<in>set reqs. request_roles r \<noteq> Some []" by simp
  ultimately show ?case
    using Cons.IH q by simp
qed

lemma validateRoles_rejects:
  assumes "\<not> set rs \<subseteq> {''user'', ''admin'', ''moderator''}"
  shows "\<not> validateRoles (Some rs)"
  using assms by (auto simp: validateRoles_def allowedRoles_def list_all_iff)

text \<open>
  Claim C2, as amended. Starting from the empty store, after any sequence of requests in
  which no create or update body carries an explicitly empty \<^verbatim>\<open>roles\<close> array, every stored
  user has at least one role and each of its roles is one of \<^verbatim>\<open>user\<close>, \<^verbatim>\<open>admin\<close>,
  \<^verbatim>\<open>moderator\<close>. create stores \<^verbatim>\<open>['user']\<close> when the body has no \<^verbatim>\<open>roles\<close>, and a create
  or update body with a role outside the three labels is rejected by the validation.
\<close>

theorem roles_stay_valid_and_nonempty:
  assumes "\<forall>(now, r)\<in>set reqs. request_roles r \<noteq> Some []"
  shows "(\<forall>u\<in>set (rows (run dt reqs initial_store)).
            roles u \<noteq> [] \<and> set (roles u) \<subseteq> {''user'', ''admin'', ''moderator''})
         \<and> (\<forall>now dto s u s'. c_roles dto = None \<and> create dt now dto s = (Inr u, s')
               \<longrightarrow> roles u = [''user''])
         \<and> (\<forall>now dto s rs. c_roles dto = Some rs \<and> \<not> set rs \<subseteq> {''user'', ''admin'', ''moderator''}
               \<longrightarrow> controller_create dt now dto s = (Inl BadRequestException, s))
         \<and> (\<forall>now i dto s rs. p_roles dto = Some rs \<and> \<not> set rs \<subseteq> {''user'', ''admin'', ''moderator''}
               \<longrightarrow> controller_update dt now i dto s = (Inl BadRequestException, s))"
proof -
  have "\<forall>u\<in>set (rows initial_store). roles_ok u" by (simp add: initial_store_def)
  with assms have "\<forall>u\<in>set (rows (run dt reqs initial_store)). roles_ok u"
    by (rule run_roles_ok)
  then have a: "\<forall>u\<in>set (rows (run dt reqs initial_store)).
            roles u \<noteq> [] \<and> set (roles u) \<subseteq> {''user'', ''admin'', ''moderator''}"
    by (auto simp: roles_ok_def allowedRoles_def list_all_iff)
  have b: "\<forall>now dto s u s'. c_roles dto = None \<and> create dt now dto s = (Inr u, s')
               \<longrightarrow> roles u = [''user'']"
  proof (intro allI impI)
    fix now dto s u s'
    assume h: "c_roles dto = None \<and> create dt now dto s = (Inr u, s')"
    then have c: "create dt now dto s = (Inr u, s')" by simp
    from create_Inr_cases [OF c] have "u = omit_password (spec_created now dto s)" by auto
    with h show "roles u = [''user'']" by (simp add: omit_password_def spec_created_def)
  qed
  have c: "\<forall>now dto s rs. c_roles dto = Some rs \<and> \<not> set rs \<subseteq> {''user'', ''admin'', ''moderator''}
               \<longrightarrow> controller_create dt now dto s = (Inl BadRequestException, s)"
  proof (intro allI impI)
    fix now and dto :: createUserDto and s rs
    assume "c_roles dto = Some rs \<and> \<not> set rs \<subseteq> {''user'', ''admin'', ''moderator''}"
    then have "\<not> validateRoles (c_roles dto)"
      using validateRoles_rejects [of rs] by simp
    then show "controller_create dt now dto s = (Inl BadRequestException, s)"
      by (simp add: controller_create_def)
  qed
  have d: "\<forall>now i dto s rs. p_roles dto = Some rs \<and> \<not> set rs \<subseteq> {''user'', ''admin'', ''moderator''}
               \<longrightarrow> controller_update dt now i dto s = (Inl BadRequestException, s)"
  proof (intro allI impI)
    fix now i and dto :: updateUserDto and s rs
    assume "p_roles dto = Some rs \<and> \<not> set rs \<subseteq> {''user'', ''admin'', ''moderator''}"
    then have "\<not> validateRoles (p_roles dto)"
      using validateRoles_rejects [of rs] by simp
    then show "controller_update dt now i dto s = (Inl BadRequestException, s)"
      by (simp add: controller_update_def)
  qed
  from a b c d show ?thesis by (intro conjI)
qed

theorem roles_stay_valid_and_nonempty_witness:
  "request_roles (PostUser johnDto) \<noteq> Some [] \<and>
   request_roles (PatchUser 1 janeDto) \<noteq> Some [] \<and>
   map roles (rows (run utcDate [(10, PostUser johnDto), (20, PatchUser 1 janeDto)] initial_store))
     = [[''user'']]
   \<and> [''user''] \<noteq> [] \<and> set [''user''] \<subseteq> {''user'', ''admin'', ''moderator''}"
proof -
  have q: "request_roles (PostUser johnDto) \<noteq> Some []"
    "request_roles (PatchUser 1 janeDto) \<noteq> Some []"
    by (simp_all add: johnDto_def janeDto_def noChange_def)
  then have h: "\<forall>(now, r)\<in>set [(10::nat, PostUser johnDto), (20, PatchUser 1 janeDto)].
             request_roles r \<noteq> Some []"
    by simp
  have vc: "validateRoles (c_roles johnDto)" and vu: "validateRoles (p_roles janeDto)"
    by (simp_all add: validateRoles_def johnDto_def janeDto_def noChange_def)
  have c: "controller_create utcDate 10 johnDto initial_store = (Inr johnReturned, johnStore)"
    using vc by (simp add: controller_create_def create_john)
  have u: "controller_update utcDate 20 1 janeDto johnStore
             = (Inr (omit_password (john\<lparr>firstName := ''Jane'', updatedAt := 20\<rparr>)),
                \<lparr>rows = [john\<lparr>firstName := ''Jane'', updatedAt := 20\<rparr>], nextId = 2\<rparr>)"
    using vu by (simp add: controller_update_def john_writes(1))
  have r: "run utcDate [(10, PostUser johnDto), (20, PatchUser 1 janeDto)] initial_store
             = \<lparr>rows = [john\<lparr>firstName := ''Jane'', updatedAt := 20\<rparr>], nextId = 2\<rparr>"
    by (simp add: c u)
  have j: "roles john = [''user'']" by (simp add: john_def)
  have m: "map roles (rows (run utcDate [(10, PostUser johnDto), (20, PatchUser 1 janeDto)]
                             initial_store)) = [[''user'']]"
    unfolding r by (simp add: j)
  have "\<forall>u\<in>set (rows (run utcDate [(10, PostUser johnDto), (20, PatchUser 1 janeDto)]
                          initial_store)).
          roles u \<noteq> [] \<and> set (roles u) \<subseteq> {''user'', ''admin'', ''moderator''}"
    by (rule roles_stay_valid_and_nonempty [OF h, THEN conjunct1])
  then have "[''user''] \<noteq> [] \<and> set [''user''] \<subseteq> {''user'', ''admin'', ''moderator''}"
    unfolding r by (simp add: j)
  with q m show ?thesis by (intro conjI) simp_all
qed

text \<open>
  Claim C2 as stated fails: the body of the test suite with \<^verbatim>\<open>roles: []\<close> passes the
  decorators (each of no elements is an allowed label), the empty array is truthy, so
  \<^verbatim>\<open>createUserDto.roles || ['user']\<close> keeps it, and the stored user has no role.
\<close>

theorem roles_empty_counterexample:
  "validateRoles (c_roles emptyRolesDto) \<and>
   map roles (rows (run utcDate [(10, PostUser emptyRolesDto)] initial_store)) = [[]]"
proof -
  have v: "validateRoles (c_roles emptyRolesDto)"
    by (simp add: validateRoles_def emptyRolesDto_def)
  have e: "\<forall>u\<in>set (rows initial_store). email u \<noteq> c_email emptyRolesDto"
    by (simp add: initial_store_def)
  have p: "isPasswordStrong (c_password emptyRolesDto)"
    by (simp add: emptyRolesDto_def johnDto_def strong_example)
  have f: "fits emptyRolesDto" "date_accepted utcDate (c_dateOfBirth emptyRolesDto)"
    using fits_johnDto by (simp_all add: emptyRolesDto_def fits_def)
  have i: "int4 (nextId initial_store)" by (simp add: int4_def initial_store_def)
  have r: "roles (as_loaded utcDate (spec_created 10 emptyRolesDto initial_store)) = []"
    by (simp add: as_loaded_def spec_created_def emptyRolesDto_def)
  have c: "controller_create utcDate 10 emptyRolesDto initial_store
             = create utcDate 10 emptyRolesDto initial_store"
    using v by (simp add: controller_create_def)
  have "rows (run utcDate [(10, PostUser emptyRolesDto)] initial_store)
          = [as_loaded utcDate (spec_created 10 emptyRolesDto initial_store)]"
    unfolding run.simps handle.simps c create_ok [OF e p f i]
    by (simp add: initial_store_def)
  then have "map roles (rows (run utcDate [(10, PostUser emptyRolesDto)] initial_store)) = [[]]"
    by (simp only: r list.map)
  with v show ?thesis by (rule conjI)
qed

subsection \<open>Every reachable store is well formed\<close>

lemma store_ok_seq:
  assumes "store_ok s" and "int4 (nextId s)"
  shows "store_ok (s\<lparr>nextId := nextId s + 1\<rparr>)"
  using assms by (auto simp: store_ok_def list_all_iff int4_def)

lemma store_ok_append:
  assumes "store_ok s" and "int4 (nextId s)" and "u_id row = nextId s"
    and "stored_date (dateOfBirth row)"
  shows "store_ok (s\<lparr>rows := rows s @ [row], nextId := nextId s + 1\<rparr>)"
  using assms by (auto simp: store_ok_def list_all_iff int4_def)

lemma store_ok_create:
  assumes "store_ok s"
  shows "store_ok (snd (create dt now dto s))"
proof -
  from create_cases [of dt now dto s] show ?thesis
  proof (elim disjE exE conjE)
    fix row
    assume i: "insert_row dt now (nextId s) (create_draft dto) = Some row"
      and n: "int4 (nextId s)"
      and c: "create dt now dto s =
               (Inr (omit_password (spec_created now dto s)),
                s\<lparr>rows := rows s @ [row], nextId := nextId s + 1\<rparr>)"
    from store_ok_append [OF assms n insert_row_props(1,3) [OF i]] show ?thesis
      by (simp add: c)
  qed (use assms store_ok_seq [OF assms] in simp_all)
qed

lemma store_ok_repo_save:
  assumes "store_ok s"
  shows "store_ok (snd (repo_save dt now e s))"
proof -
  from repo_save_cases [of dt now e s] show ?thesis
  proof (elim disjE exE conjE)
    assume "snd (repo_save dt now e s) = s"
    with assms show ?thesis by simp
  next
    fix row row'
    assume m: "row \<in> set (rows s)" and i: "u_id row = u_id e"
      and u: "update_row dt now e row = Some row'"
      and s': "snd (repo_save dt now e s)
                 = s\<lparr>rows := map (\<lambda>r. if u_id r = u_id e then row' else r) (rows s)\<rparr>"
    from assms m have p: "0 < u_id row" "u_id row < nextId s" "stored_date (dateOfBirth row)"
      by (auto simp: store_ok_def list_all_iff)
    have "store_ok (s\<lparr>rows := map (\<lambda>r. if u_id r = u_id e then row' else r) (rows s)\<rparr>)"
      using assms
    proof (rule store_ok_replace)
      show "u_id row' = u_id e" using update_row_props(2) [OF u] i by simp
      show "0 < u_id e" "u_id e < nextId s" using p i by simp_all
      show "stored_date (dateOfBirth row')" using update_row_props(3) [OF u p(3)] .
    qed
    then show ?thesis by (simp only: s')
  qed
qed

lemma saved_store:
  "snd (case repo_save dt now e s of
          (Inl err, s') \<Rightarrow> (Inl err, s')
        | (Inr updatedUser, s') \<Rightarrow> (Inr (omit_password updatedUser), s'))
     = snd (repo_save dt now e s)"
  by (simp split: prod.splits sum.splits)

lemma store_ok_update:
  assumes "store_ok s"
  shows "store_ok (snd (update dt now i dto s))"
  using assms store_ok_repo_save [OF assms]
  by (simp add: update_def saved_store split: sum.splits option.splits)

lemma store_ok_toggle:
  assumes "store_ok s"
  shows "store_ok (snd (deactivate dt now i s))" and "store_ok (snd (activate dt now i s))"
  using assms store_ok_repo_save [OF assms]
  by (simp_all add: deactivate_def activate_def saved_store split: sum.splits option.splits)

lemma store_ok_remove:
  assumes "store_ok s"
  shows "store_ok (snd (remove i s))"
  using assms
  by (auto simp: remove_def repo_delete_def store_ok_def list_all_iff distinct_map_filter)

lemma store_ok_handle:
  assumes "store_ok s"
  shows "store_ok (handle dt now r s)"
proof (cases r)
  case (PostUser dto)
  with assms store_ok_create [OF assms] show ?thesis
    by (simp add: controller_create_def)
next
  case (PatchUser i dto)
  with assms store_ok_update [OF assms] show ?thesis
    by (simp add: controller_update_def)
next
  case (DeleteUser i)
  with store_ok_remove [OF assms] show ?thesis by (simp only: handle.simps)
next
  case (PatchDeactivate i)
  with store_ok_toggle(1) [OF assms] show ?thesis by (simp only: handle.simps)
next
  case (PatchActivate i)
  with store_ok_toggle(2) [OF assms] show ?thesis by (simp only: handle.simps)
qed

lemma store_ok_run:
  assumes "store_ok s"
  shows "store_ok (run dt reqs s)"
  using assms
proof (induction reqs arbitrary: s)
  case Nil
  then show ?case by simp
next
  case (Cons q reqs)
  obtain now r where "q = (now, r)" by (cases q)
  with Cons.IH [OF store_ok_handle [OF Cons.prems]] show ?case by simp
qed

lemma reachable_store_ok: "store_ok (run dt reqs initial_store)"
  using store_ok_initial by (rule store_ok_run)

end
